theory Spec2Isabelle
  imports Complex_Main "HOL-Library.Sublist" "HOL-Library.Multiset"
begin

section \<open>Decoded JSON documents\<close>

text \<open>
  Every payload the downloader handles is a document decoded by \<^verbatim>\<open>json.loads\<close>:
  an arbitrary nesting of Python dicts (string keys, insertion order kept), lists and
  scalars.  A dict is an association list in insertion order; a decoded dict never holds
  the same key twice, the lemmas below do not need that.  Numbers are the finite values of
  JSON (Python compares an int and a float by value, so one rational stands for both).
\<close>

datatype json =
    JNull
  | JBool bool
  | JNum rat
  | JStr string
  | JList "json list"
  | JDict "(string \<times> json) list"

section \<open>Nested-structure search (utils.py, search_dict)\<close>

text \<open>
  \<^verbatim>\<open>
  def search_dict(partial, search_key):
      stack = [partial]
      while stack:
          current_item = stack.pop()
          if isinstance(current_item, dict):
              for key, value in current_item.items():
                  if key == search_key:
                      yield value
                  else:
                      stack.append(value)
          elif isinstance(current_item, list):
              stack.extend(current_item)
  \<close>
  The generator is modelled by the list of the values it yields, in the order it yields
  them.  The work stack is a list whose last element is the top, as in Python
  (\<^verbatim>\<open>pop()\<close> removes the last element, \<^verbatim>\<open>append\<close> and \<^verbatim>\<open>extend\<close> add at the end).
\<close>

fun weight :: "json \<Rightarrow> nat" where
  "weight (JList xs) = Suc (sum_list (map weight xs))"
| "weight (JDict items) = Suc (sum_list (map (\<lambda>kv. weight (snd kv)) items))"
| "weight _ = Suc 0"

definition yielded :: "string \<Rightarrow> (string \<times> json) list \<Rightarrow> json list" where
  "yielded search_key items = map snd (filter (\<lambda>kv. fst kv = search_key) items)"

definition appended :: "string \<Rightarrow> (string \<times> json) list \<Rightarrow> json list" where
  "appended search_key items = map snd (filter (\<lambda>kv. fst kv \<noteq> search_key) items)"

lemma weight_appended: "sum_list (map weight (appended k items)) < weight (JDict items)"
  by (induction items) (auto simp: appended_def)

function search_stack :: "json list \<Rightarrow> string \<Rightarrow> json list" where
  "search_stack stack search_key =
     (if stack = [] then []
      else
        (case last stack of
           JDict items \<Rightarrow>
             yielded search_key items
               @ search_stack (butlast stack @ appended search_key items) search_key
         | JList xs \<Rightarrow> search_stack (butlast stack @ xs) search_key
         | _ \<Rightarrow> search_stack (butlast stack) search_key))"
  by pat_completeness auto


lemma weight_pos: "0 < weight j"
  by (cases j) auto

lemma weight_stack_split:
  "stack \<noteq> [] \<Longrightarrow>
     sum_list (map weight stack) = sum_list (map weight (butlast stack)) + weight (last stack)"
  by (induction stack rule: rev_induct) auto

termination search_stack
  apply (relation "measure (\<lambda>(stack, k). sum_list (map weight stack))")
  using weight_appended weight_pos
  apply (auto simp: weight_stack_split)
  done

declare search_stack.simps [simp del]

definition search_dict :: "json \<Rightarrow> string \<Rightarrow> json list" where
  "search_dict partial search_key = search_stack [partial] search_key"

section \<open>Python operations on decoded documents\<close>

text \<open>
  Every exception the modelled code can raise is a value.  The first five are raised by
  the Python operations below (\<open>RuntimeError\<close> is what a \<^verbatim>\<open>StopIteration\<close> escaping from
  \<^verbatim>\<open>next\<close> becomes inside a generator), the next five by the libraries (\<^verbatim>\<open>json\<close>,
  \<^verbatim>\<open>requests\<close>, and \<^verbatim>\<open>dateparser\<close> with \<^verbatim>\<open>datetime.timestamp\<close>), the last four are
  the exceptions of exceptions.py that the downloader raises itself.
\<close>

datatype error =
    KeyError
  | TypeError
  | AttributeError
  | IndexError
  | RuntimeError
  | JSONDecodeError
  | RequestException
  | ValueError
  | OverflowError
  | OSError
  | CommentDownloadError
  | SortingError
  | CommentsDisabledError
  | YouTubeApiError

definition bindE :: "error + 'a \<Rightarrow> ('a \<Rightarrow> error + 'b) \<Rightarrow> error + 'b" where
  "bindE m f = (case m of Inl e \<Rightarrow> Inl e | Inr x \<Rightarrow> f x)"

text \<open>\<^verbatim>\<open>obj[key]\<close> with a string key: only a dict can be subscripted by a string.\<close>

fun getitem :: "json \<Rightarrow> string \<Rightarrow> error + json" where
  "getitem (JDict items) key =
     (case map_of items key of Some v \<Rightarrow> Inr v | None \<Rightarrow> Inl KeyError)"
| "getitem _ key = Inl TypeError"

text \<open>
  \<^verbatim>\<open>obj[i]\<close> with an integer index: a negative index counts from the end of a list or
  string; a decoded dict has string keys only, so an integer is never one of its keys.
\<close>

definition index_of :: "nat \<Rightarrow> int \<Rightarrow> nat option" where
  "index_of n i =
     (let j = (if i < 0 then int n + i else i)
      in if 0 \<le> j \<and> j < int n then Some (nat j) else None)"

fun getitem_int :: "json \<Rightarrow> int \<Rightarrow> error + json" where
  "getitem_int (JList xs) i =
     (case index_of (length xs) i of Some j \<Rightarrow> Inr (xs ! j) | None \<Rightarrow> Inl IndexError)"
| "getitem_int (JStr s) i =
     (case index_of (length s) i of Some j \<Rightarrow> Inr (JStr [s ! j]) | None \<Rightarrow> Inl IndexError)"
| "getitem_int (JDict items) i = Inl KeyError"
| "getitem_int _ i = Inl TypeError"

text \<open>\<^verbatim>\<open>obj.get(key, default)\<close>: a method of dicts only (\<open>dflt\<close> is the default).\<close>

fun py_get :: "json \<Rightarrow> string \<Rightarrow> json \<Rightarrow> error + json" where
  "py_get (JDict items) key dflt =
     Inr (case map_of items key of Some v \<Rightarrow> v | None \<Rightarrow> dflt)"
| "py_get _ key dflt = Inl AttributeError"

text \<open>Truth value of a document, as \<^verbatim>\<open>if x\<close> and \<^verbatim>\<open>not x\<close> test it.\<close>

fun truthy :: "json \<Rightarrow> bool" where
  "truthy JNull = False"
| "truthy (JBool b) = b"
| "truthy (JNum n) = (n \<noteq> 0)"
| "truthy (JStr s) = (s \<noteq> [])"
| "truthy (JList xs) = (xs \<noteq> [])"
| "truthy (JDict items) = (items \<noteq> [])"

fun py_len :: "json \<Rightarrow> error + nat" where
  "py_len (JList xs) = Inr (length xs)"
| "py_len (JDict items) = Inr (length items)"
| "py_len (JStr s) = Inr (length s)"
| "py_len _ = Inl TypeError"

text \<open>
  \<^verbatim>\<open>'needle' in obj\<close>: key membership in a dict, element membership in a list, substring
  test in a string; the other values are not containers.
\<close>

fun contains :: "string \<Rightarrow> json \<Rightarrow> error + bool" where
  "contains needle (JDict items) = Inr (map_of items needle \<noteq> None)"
| "contains needle (JList xs) = Inr (JStr needle \<in> set xs)"
| "contains needle (JStr s) = Inr (sublist needle s)"
| "contains needle _ = Inl TypeError"

text \<open>\<^verbatim>\<open>for item in obj\<close>: a dict iterates over its keys, a string over its characters.\<close>

fun py_iter :: "json \<Rightarrow> error + json list" where
  "py_iter (JList xs) = Inr xs"
| "py_iter (JDict items) = Inr (map (\<lambda>kv. JStr (fst kv)) items)"
| "py_iter (JStr s) = Inr (map (\<lambda>c. JStr [c]) s)"
| "py_iter _ = Inl TypeError"

text \<open>\<^verbatim>\<open>obj.startswith(prefix)\<close>: a method of strings only.\<close>

fun startswith :: "json \<Rightarrow> string \<Rightarrow> error + bool" where
  "startswith (JStr s) p = Inr (prefix p s)"
| "startswith _ p = Inl AttributeError"

text \<open>
  \<^verbatim>\<open>next(gen, default)\<close> and \<^verbatim>\<open>next(gen)\<close> on a fresh generator: the first value it yields.
\<close>

definition next_or :: "json list \<Rightarrow> json \<Rightarrow> json" where
  "next_or gen dflt = (case gen of [] \<Rightarrow> dflt | x # _ \<Rightarrow> x)"

definition next_raise :: "json list \<Rightarrow> error + json" where
  "next_raise gen = (case gen of [] \<Rightarrow> Inl RuntimeError | x # _ \<Rightarrow> Inr x)"

subsection \<open>Dicts built by the downloader\<close>

text \<open>
  The keys of the lookup tables are decoded scalars.  Python hashes and compares them by
  value (\<^verbatim>\<open>True == 1\<close>, \<^verbatim>\<open>False == 0\<close>); lists and dicts are unhashable.  A table is an
  association list in insertion order: storing under a key that is present replaces the
  value and keeps the position.
\<close>

datatype hkey = HNone | HNum rat | HStr string

fun py_hash :: "json \<Rightarrow> error + hkey" where
  "py_hash JNull = Inr HNone"
| "py_hash (JBool b) = Inr (HNum (if b then 1 else 0))"
| "py_hash (JNum n) = Inr (HNum n)"
| "py_hash (JStr s) = Inr (HStr s)"
| "py_hash _ = Inl TypeError"

type_synonym 'v table = "(hkey \<times> 'v) list"

fun setitem :: "'k \<Rightarrow> 'v \<Rightarrow> ('k \<times> 'v) list \<Rightarrow> ('k \<times> 'v) list" where
  "setitem k v [] = [(k, v)]"
| "setitem k v (p # ps) = (if fst p = k then (k, v) # ps else p # setitem k v ps)"

definition lookup :: "'v table \<Rightarrow> hkey \<Rightarrow> error + 'v" where
  "lookup t k = (case map_of t k of Some v \<Rightarrow> Inr v | None \<Rightarrow> Inl KeyError)"

section \<open>Resilient request client (downloader.py, ajax_request)\<close>

text \<open>
  The transport is the list of the outcomes of the POSTs still to come: a response with
  its status code and decoded body (\<open>None\<close> when \<^verbatim>\<open>response.json()\<close> raises), a
  \<^verbatim>\<open>requests.exceptions.Timeout\<close>, or any other exception of \<^verbatim>\<open>session.post\<close>.  A
  transport whose list is used up times out from then on.  The world also records what
  the client did: every POST (url, key, body) and every \<^verbatim>\<open>time.sleep\<close>.
\<close>

datatype attempt = Response nat "json option" | Timeout | Failure

datatype nap = RetrySleep | BatchSleep

type_synonym request = "string \<times> json \<times> json"

record world =
  pending :: "attempt list"
  posts :: "request list"
  naps :: "nap list"

definition session_post :: "request \<Rightarrow> world \<Rightarrow> attempt \<times> world" where
  "session_post req w =
     (case pending w of
        [] \<Rightarrow> (Timeout, w\<lparr>posts := posts w @ [req]\<rparr>)
      | a # rest \<Rightarrow> (a, w\<lparr>pending := rest, posts := posts w @ [req]\<rparr>))"

definition sleep :: "nap \<Rightarrow> world \<Rightarrow> world" where
  "sleep n w = w\<lparr>naps := naps w @ [n]\<rparr>"

text \<open>
  \<^verbatim>\<open>
  for _ in range(retries):
      try:
          response = self.session.post(url, params={'key': ytcfg['INNERTUBE_API_KEY']},
                                       json=data, timeout=timeout)
          if response.status_code == 200:
              return response.json()
          if response.status_code in [403, 413]:
              return {}
      except requests.exceptions.Timeout:
          pass
      time.sleep(sleep)
  return None
  \<close>
  The result is \<open>Inr (Some doc)\<close> for a returned document, \<open>Inr None\<close> for \<^verbatim>\<open>None\<close>,
  \<open>Inl e\<close> for an exception that leaves the function.
\<close>

fun retry_loop ::
  "nat \<Rightarrow> string \<Rightarrow> json \<Rightarrow> json \<Rightarrow> world \<Rightarrow> (error + json option) \<times> world" where
  "retry_loop 0 url ytcfg data w = (Inr None, w)"
| "retry_loop (Suc n) url ytcfg data w =
     (case getitem ytcfg ''INNERTUBE_API_KEY'' of
        Inl e \<Rightarrow> (Inl e, w)
      | Inr key \<Rightarrow>
          (case session_post (url, key, data) w of
             (Response status_code body, w') \<Rightarrow>
               if status_code = 200 then
                 (case body of None \<Rightarrow> (Inl JSONDecodeError, w') | Some doc \<Rightarrow> (Inr (Some doc), w'))
               else if status_code = 403 \<or> status_code = 413 then (Inr (Some (JDict [])), w')
               else retry_loop n url ytcfg data (sleep RetrySleep w')
           | (Timeout, w') \<Rightarrow> retry_loop n url ytcfg data (sleep RetrySleep w')
           | (Failure, w') \<Rightarrow> (Inl RequestException, w')))"

text \<open>
  \<^verbatim>\<open>
  url = 'https://www.youtube.com' + endpoint['commandMetadata']['webCommandMetadata']['apiUrl']
  data = {'context': ytcfg['INNERTUBE_CONTEXT'],
          'continuation': endpoint['continuationCommand']['token']}
  \<close>
\<close>

definition request_url :: "json \<Rightarrow> error + string" where
  "request_url endpoint =
     bindE (getitem endpoint ''commandMetadata'') (\<lambda>m.
     bindE (getitem m ''webCommandMetadata'') (\<lambda>wm.
     bindE (getitem wm ''apiUrl'') (\<lambda>api_url.
       case api_url of
         JStr s \<Rightarrow> Inr (''https://www.youtube.com'' @ s)
       | _ \<Rightarrow> Inl TypeError)))"

definition request_data :: "json \<Rightarrow> json \<Rightarrow> error + json" where
  "request_data endpoint ytcfg =
     bindE (getitem ytcfg ''INNERTUBE_CONTEXT'') (\<lambda>context.
     bindE (getitem endpoint ''continuationCommand'') (\<lambda>c.
     bindE (getitem c ''token'') (\<lambda>token.
       Inr (JDict [(''context'', context), (''continuation'', token)]))))"

definition ajax_request ::
  "json \<Rightarrow> json \<Rightarrow> int \<Rightarrow> world \<Rightarrow> (error + json option) \<times> world" where
  "ajax_request endpoint ytcfg retries w =
     (case request_url endpoint of
        Inl e \<Rightarrow> (Inl e, w)
      | Inr url \<Rightarrow>
          (case request_data endpoint ytcfg of
             Inl e \<Rightarrow> (Inl e, w)
           | Inr data \<Rightarrow> retry_loop (nat retries) url ytcfg data w))"

section \<open>Session bootstrap (downloader.py, get_comments_from_url, lines 121-131)\<close>

text \<open>
  The working page (the fetched page, or the answer to the consent form when the fetch
  was redirected there) is given by what \<^verbatim>\<open>re.search\<close> finds in its body for the two
  patterns of constants.py: the text of group 1, or nothing.  \<^verbatim>\<open>json.loads\<close> is a
  parameter \<open>loads\<close>; the only fact used about it is that it decodes \<^verbatim>\<open>'{}'\<close> to the
  empty dict.
\<close>

record page =
  cfg_match :: "string option"
  data_match :: "string option"

definition regex_search :: "string option \<Rightarrow> string \<Rightarrow> string" where
  "regex_search m dflt = (case m of Some g \<Rightarrow> g | None \<Rightarrow> dflt)"

text \<open>\<^verbatim>\<open>obj[key] = value\<close> with a string key.\<close>

fun store :: "json \<Rightarrow> string \<Rightarrow> json \<Rightarrow> error + json" where
  "store (JDict items) key v = Inr (JDict (setitem key v items))"
| "store _ key v = Inl TypeError"

text \<open>\<^verbatim>\<open>ytcfg['INNERTUBE_CONTEXT']['client']['hl'] = language\<close>\<close>

definition set_language :: "string \<Rightarrow> json \<Rightarrow> error + json" where
  "set_language language ytcfg =
     bindE (getitem ytcfg ''INNERTUBE_CONTEXT'') (\<lambda>context.
     bindE (getitem context ''client'') (\<lambda>client.
     bindE (store client ''hl'' (JStr language)) (\<lambda>client'.
     bindE (store context ''client'' client') (\<lambda>context'.
       store ytcfg ''INNERTUBE_CONTEXT'' context'))))"

text \<open>
  \<^verbatim>\<open>
  if language:
      ytcfg['INNERTUBE_CONTEXT']['client']['hl'] = language
  \<close>
\<close>

definition apply_language :: "string option \<Rightarrow> json \<Rightarrow> error + json" where
  "apply_language language ytcfg =
     (case language of
        None \<Rightarrow> Inr ytcfg
      | Some l \<Rightarrow> if l = [] then Inr ytcfg else set_language l ytcfg)"

text \<open>
  \<^verbatim>\<open>
  html = response.text
  ytcfg = json.loads(regex_search(html, YT_CFG_RE, default='{}'))
  if not ytcfg:
      raise CommentDownloadError("Unable to extract YouTube configuration")
  if language: ...
  data = json.loads(regex_search(html, YT_INITIAL_DATA_RE, default='{}'))
  \<close>
\<close>

definition bootstrap ::
  "(string \<Rightarrow> error + json) \<Rightarrow> page \<Rightarrow> string option \<Rightarrow> error + json \<times> json" where
  "bootstrap loads pg language =
     bindE (loads (regex_search (cfg_match pg) ''{}'')) (\<lambda>ytcfg.
       if \<not> truthy ytcfg then Inl CommentDownloadError
       else
         bindE (apply_language language ytcfg) (\<lambda>ytcfg.
         bindE (loads (regex_search (data_match pg) ''{}'')) (\<lambda>data.
           Inr (ytcfg, data))))"


section \<open>Sort and continuation resolution (lines 133-152)\<close>

text \<open>
  \<^verbatim>\<open>
  item_section = next(search_dict(data, 'itemSectionRenderer'), None)
  renderer = next(search_dict(item_section, 'continuationItemRenderer'), None) if item_section else None
  if not renderer:
      raise CommentsDisabledError("Comments may be disabled for this video")
  \<close>
\<close>

definition comments_renderer :: "json \<Rightarrow> json" where
  "comments_renderer data =
     (let item_section = next_or (search_dict data ''itemSectionRenderer'') JNull
      in if truthy item_section
         then next_or (search_dict item_section ''continuationItemRenderer'') JNull
         else JNull)"

text \<open>
  \<^verbatim>\<open>
  sort_menu = next(search_dict(data, 'sortFilterSubMenuRenderer'), {}).get('subMenuItems', [])
  if not sort_menu:
      section_list = next(search_dict(data, 'sectionListRenderer'), {})
      continuations = list(search_dict(section_list, 'continuationEndpoint'))
      if continuations:
          data = self.ajax_request(continuations[0], ytcfg) or {}
          sort_menu = next(search_dict(data, 'sortFilterSubMenuRenderer'), {}).get('subMenuItems', [])
  \<close>
\<close>

definition sort_menu_of :: "json \<Rightarrow> error + json" where
  "sort_menu_of data =
     py_get (next_or (search_dict data ''sortFilterSubMenuRenderer'') (JDict []))
       ''subMenuItems'' (JList [])"

definition find_sort_menu :: "json \<Rightarrow> json \<Rightarrow> world \<Rightarrow> (error + json) \<times> world" where
  "find_sort_menu data ytcfg w =
     (case sort_menu_of data of
        Inl e \<Rightarrow> (Inl e, w)
      | Inr sort_menu \<Rightarrow>
          if truthy sort_menu then (Inr sort_menu, w)
          else
            (let section_list = next_or (search_dict data ''sectionListRenderer'') (JDict [])
             in case search_dict section_list ''continuationEndpoint'' of
                  [] \<Rightarrow> (Inr sort_menu, w)
                | continuation # _ \<Rightarrow>
                    (case ajax_request continuation ytcfg 5 w of
                       (Inl e, w') \<Rightarrow> (Inl e, w')
                     | (Inr None, w') \<Rightarrow> (sort_menu_of (JDict []), w')
                     | (Inr (Some doc), w') \<Rightarrow>
                         (sort_menu_of (if truthy doc then doc else JDict []), w'))))"

text \<open>
  \<^verbatim>\<open>
  if not sort_menu or sort_by >= len(sort_menu):
      raise SortingError(f"Failed to set sorting method: {sort_by}")
  continuations = [sort_menu[sort_by]['serviceEndpoint']]
  \<close>
\<close>

definition seed_endpoint :: "json \<Rightarrow> int \<Rightarrow> error + json" where
  "seed_endpoint sort_menu sort_by =
     (if \<not> truthy sort_menu then Inl SortingError
      else
        bindE (py_len sort_menu) (\<lambda>n.
          if sort_by \<ge> int n then Inl SortingError
          else
            bindE (getitem_int sort_menu sort_by) (\<lambda>item.
              getitem item ''serviceEndpoint'')))"

section \<open>Continuation crawl engine (lines 155-230)\<close>

subsection \<open>Discovering continuations (lines 167-179)\<close>

text \<open>
  The work stack is a Python list: \<^verbatim>\<open>pop()\<close> takes the last element,
  \<^verbatim>\<open>continuations[:0] = ...\<close> inserts at the front, \<^verbatim>\<open>append\<close> adds at the back.  Each
  token carries a mark of the place where it was put on the stack; the code has no such
  mark and the model never reads it (\<open>crawl_ignores_origin\<close> below), it only serves to
  state where a token came from.
  \<^verbatim>\<open>
  for action in actions:
      for item in action.get('continuationItems', []):
          if action['targetId'] in ['comments-section',
                                    'engagement-panel-comments-section',
                                    'shorts-engagement-panel-comments-section']:
              continuations[:0] = [ep for ep in search_dict(item, 'continuationEndpoint')]
          if action['targetId'].startswith('comment-replies-item') and 'continuationItemRenderer' in item:
              continuations.append(next(search_dict(item, 'buttonRenderer'))['command'])
  \<close>
\<close>

datatype origin = Seed | MoreComments | MoreReplies

type_synonym continuation = "origin \<times> json"

definition comment_targets :: "json set" where
  "comment_targets =
     {JStr ''comments-section'', JStr ''engagement-panel-comments-section'',
      JStr ''shorts-engagement-panel-comments-section''}"

fun push_items :: "json \<Rightarrow> json list \<Rightarrow> continuation list \<Rightarrow> error + continuation list" where
  "push_items action [] continuations = Inr continuations"
| "push_items action (item # items) continuations =
     bindE (getitem action ''targetId'') (\<lambda>target.
       let continuations1 =
             (if target \<in> comment_targets
              then map (Pair MoreComments) (search_dict item ''continuationEndpoint'')
                     @ continuations
              else continuations)
       in
         bindE (startswith target ''comment-replies-item'') (\<lambda>replies.
         bindE (if replies then contains ''continuationItemRenderer'' item else Inr False) (\<lambda>more.
           if more then
             bindE (next_raise (search_dict item ''buttonRenderer'')) (\<lambda>button.
             bindE (getitem button ''command'') (\<lambda>command.
               push_items action items (continuations1 @ [(MoreReplies, command)])))
           else push_items action items continuations1)))"

fun push_continuations :: "json list \<Rightarrow> continuation list \<Rightarrow> error + continuation list" where
  "push_continuations [] continuations = Inr continuations"
| "push_continuations (action # actions) continuations =
     bindE (py_get action ''continuationItems'' (JList [])) (\<lambda>its.
     bindE (py_iter its) (\<lambda>items.
     bindE (push_items action items continuations) (\<lambda>continuations'.
       push_continuations actions continuations')))"

subsection \<open>Payment annotations and toolbar states (lines 181-195)\<close>

text \<open>
  \<^verbatim>\<open>
  payments = {payload['key']: next(search_dict(payload, 'simpleText'), '')
              for payload in surface_payloads if 'pdgCommentChip' in payload}
  \<close>
\<close>

fun collect_payments :: "json list \<Rightarrow> json table \<Rightarrow> error + json table" where
  "collect_payments [] payments = Inr payments"
| "collect_payments (payload # rest) payments =
     bindE (contains ''pdgCommentChip'' payload) (\<lambda>chip.
       if chip then
         bindE (getitem payload ''key'') (\<lambda>key.
         bindE (py_hash key) (\<lambda>k.
           collect_payments rest
             (setitem k (next_or (search_dict payload ''simpleText'') (JStr [])) payments)))
       else collect_payments rest payments)"

text \<open>\<^verbatim>\<open>view_models = [vm['commentViewModel'] for vm in search_dict(response, 'commentViewModel')]\<close>\<close>

fun view_models_of :: "json list \<Rightarrow> error + json list" where
  "view_models_of [] = Inr []"
| "view_models_of (vm # rest) =
     bindE (getitem vm ''commentViewModel'') (\<lambda>v.
     bindE (view_models_of rest) (\<lambda>vs. Inr (v # vs)))"

text \<open>
  \<^verbatim>\<open>
  surface_keys = {vm['commentSurfaceKey']: vm['commentId']
                  for vm in view_models if 'commentSurfaceKey' in vm}
  \<close>
\<close>

fun collect_surface_keys :: "json list \<Rightarrow> json table \<Rightarrow> error + json table" where
  "collect_surface_keys [] surface_keys = Inr surface_keys"
| "collect_surface_keys (vm # rest) surface_keys =
     bindE (contains ''commentSurfaceKey'' vm) (\<lambda>keyed.
       if keyed then
         bindE (getitem vm ''commentSurfaceKey'') (\<lambda>key.
         bindE (getitem vm ''commentId'') (\<lambda>comment_id.
         bindE (py_hash key) (\<lambda>k.
           collect_surface_keys rest (setitem k comment_id surface_keys))))
       else collect_surface_keys rest surface_keys)"

text \<open>
  \<^verbatim>\<open>
  payments = {surface_keys[key]: payment for key, payment in payments.items()
              if key in surface_keys}
  \<close>
\<close>

fun remap_payments :: "json table \<Rightarrow> json table \<Rightarrow> json table \<Rightarrow> error + json table" where
  "remap_payments [] surface_keys remapped = Inr remapped"
| "remap_payments ((key, payment) # rest) surface_keys remapped =
     (case map_of surface_keys key of
        None \<Rightarrow> remap_payments rest surface_keys remapped
      | Some comment_id \<Rightarrow>
          bindE (py_hash comment_id) (\<lambda>k.
            remap_payments rest surface_keys (setitem k payment remapped)))"

definition build_payments :: "json \<Rightarrow> error + json table" where
  "build_payments response =
     bindE (collect_payments (search_dict response ''commentSurfaceEntityPayload'') []) (\<lambda>payments.
       if payments \<noteq> [] then
         bindE (view_models_of (search_dict response ''commentViewModel'')) (\<lambda>view_models.
         bindE (collect_surface_keys view_models []) (\<lambda>surface_keys.
           remap_payments payments surface_keys []))
       else Inr payments)"

text \<open>\<^verbatim>\<open>toolbar_states = {payload['key']: payload for payload in toolbar_payloads}\<close>\<close>

fun collect_toolbar_states :: "json list \<Rightarrow> json table \<Rightarrow> error + json table" where
  "collect_toolbar_states [] toolbar_states = Inr toolbar_states"
| "collect_toolbar_states (payload # rest) toolbar_states =
     bindE (getitem payload ''key'') (\<lambda>key.
     bindE (py_hash key) (\<lambda>k.
       collect_toolbar_states rest (setitem k payload toolbar_states)))"

definition build_toolbar_states :: "json \<Rightarrow> error + json table" where
  "build_toolbar_states response =
     collect_toolbar_states (search_dict response ''engagementToolbarStateEntityPayload'') []"


subsection \<open>Comment record emission (lines 198-228)\<close>

text \<open>
  A record carries the decoded values as they are found; only \<open>votes\<close> is known to be
  a string (it went through \<^verbatim>\<open>strip\<close>).  \<open>time_parsed\<close> and \<open>paid\<close> are the two keys a
  record may lack.
\<close>

record comment =
  cid :: json
  "text" :: json
  time :: json
  author :: json
  channel :: json
  votes :: string
  replies :: json
  photo :: json
  heart :: bool
  reply :: bool
  time_parsed :: "rat option"
  paid :: "json option"

text \<open>
  \<^verbatim>\<open>str.strip()\<close> removes the whitespace of Python at both ends.  A string is the list
  of its code points, here below 256; the whitespace among them is listed.
\<close>

definition isspace :: "char \<Rightarrow> bool" where
  "isspace c = (of_char c \<in> {9, 10, 11, 12, 13, 28, 29, 30, 31, 32, 133, 160 :: nat})"

definition strip :: "string \<Rightarrow> string" where
  "strip s = rev (dropWhile isspace (rev (dropWhile isspace s)))"

fun py_strip :: "json \<Rightarrow> error + string" where
  "py_strip (JStr s) = Inr (strip s)"
| "py_strip _ = Inl AttributeError"

text \<open>
  \<^verbatim>\<open>
  try:
      result['time_parsed'] = dateparser.parse(result['time'].split('(')[0].strip()).timestamp()
  except AttributeError:
      pass
  \<close>
  The two library calls are one parameter \<open>parse\<close>, applied to the text that is left of
  the time: \<open>Inr (Some t)\<close> when \<^verbatim>\<open>dateparser.parse\<close> returns a date and
  \<^verbatim>\<open>timestamp()\<close> returns \<open>t\<close>; \<open>Inr None\<close> when \<^verbatim>\<open>dateparser.parse\<close> returns
  \<^verbatim>\<open>None\<close>, the way it reports a text it cannot parse; \<open>Inl e\<close> when either call
  raises \<open>e\<close> (\<^verbatim>\<open>timestamp()\<close> raises \<^verbatim>\<open>ValueError\<close> or \<^verbatim>\<open>OverflowError\<close> for a date
  out of its range).  On \<^verbatim>\<open>None\<close> the call of \<^verbatim>\<open>.timestamp()\<close> raises
  \<^verbatim>\<open>AttributeError\<close>, and so does \<^verbatim>\<open>.split\<close> on a \<open>time\<close> that is no string: this is
  the one exception the handler catches.  Every other exception leaves the generator.
\<close>

type_synonym parser = "string \<Rightarrow> error + rat option"

definition parse_time :: "parser \<Rightarrow> json \<Rightarrow> error + rat option" where
  "parse_time parse t =
     (case t of
        JStr s \<Rightarrow>
          (case parse (strip (takeWhile (\<lambda>c. c \<noteq> CHR ''('') s)) of
             Inr stamp \<Rightarrow> Inr stamp
           | Inl e \<Rightarrow> if e = AttributeError then Inr None else Inl e)
      | _ \<Rightarrow> Inr None)"

text \<open>
  \<^verbatim>\<open>
  properties = comment['properties']
  cid = properties['commentId']
  author = comment['author']
  toolbar = comment['toolbar']
  toolbar_state = toolbar_states[properties['toolbarStateKey']]
  result = {'cid': cid,
            'text': properties['content']['content'],
            'time': properties['publishedTime'],
            'author': author['displayName'],
            'channel': author['channelId'],
            'votes': toolbar['likeCountNotliked'].strip() or "0",
            'replies': toolbar['replyCount'],
            'photo': author['avatarThumbnailUrl'],
            'heart': toolbar_state.get('heartState', '') == 'TOOLBAR_HEART_STATE_HEARTED',
            'reply': '.' in cid}
  try: ... except AttributeError: pass
  if cid in payments:
      result['paid'] = payments[cid]
  \<close>
  The lookups, the parse of the time and the test for a payment are made in the order
  of the source, so the first step that fails decides the exception.
\<close>

definition emit_comment ::
  "parser \<Rightarrow> json table \<Rightarrow> json table \<Rightarrow> json \<Rightarrow> error + comment" where
  "emit_comment parse payments toolbar_states c =
     bindE (getitem c ''properties'') (\<lambda>properties.
     bindE (getitem properties ''commentId'') (\<lambda>comment_id.
     bindE (getitem c ''author'') (\<lambda>author_payload.
     bindE (getitem c ''toolbar'') (\<lambda>toolbar.
     bindE (getitem properties ''toolbarStateKey'') (\<lambda>state_key.
     bindE (py_hash state_key) (\<lambda>k.
     bindE (lookup toolbar_states k) (\<lambda>toolbar_state.
     bindE (getitem properties ''content'') (\<lambda>content.
     bindE (getitem content ''content'') (\<lambda>content_text.
     bindE (getitem properties ''publishedTime'') (\<lambda>published.
     bindE (getitem author_payload ''displayName'') (\<lambda>display_name.
     bindE (getitem author_payload ''channelId'') (\<lambda>channel_id.
     bindE (getitem toolbar ''likeCountNotliked'') (\<lambda>like_count.
     bindE (py_strip like_count) (\<lambda>stripped.
     bindE (getitem toolbar ''replyCount'') (\<lambda>reply_count.
     bindE (getitem author_payload ''avatarThumbnailUrl'') (\<lambda>avatar.
     bindE (py_get toolbar_state ''heartState'' (JStr [])) (\<lambda>heart_state.
     bindE (contains ''.'' comment_id) (\<lambda>dotted.
     bindE (parse_time parse published) (\<lambda>stamp.
     bindE (py_hash comment_id) (\<lambda>ck.
       Inr \<lparr>cid = comment_id,
            text = content_text,
            time = published,
            author = display_name,
            channel = channel_id,
            votes = (if stripped = [] then ''0'' else stripped),
            replies = reply_count,
            photo = avatar,
            heart = (heart_state = JStr ''TOOLBAR_HEART_STATE_HEARTED''),
            reply = dotted,
            time_parsed = stamp,
            paid = map_of payments ck\<rparr>))))))))))))))))))))"

text \<open>
  The loop over the comments of a batch: the records yielded, in order, and the exception
  that ended the loop, if any.
\<close>

fun emit_comments ::
  "parser \<Rightarrow> json table \<Rightarrow> json table \<Rightarrow> json list
     \<Rightarrow> comment list \<times> error option" where
  "emit_comments parse payments toolbar_states [] = ([], None)"
| "emit_comments parse payments toolbar_states (c # rest) =
     (case emit_comment parse payments toolbar_states c of
        Inl e \<Rightarrow> ([], Some e)
      | Inr result \<Rightarrow>
          (case emit_comments parse payments toolbar_states rest of
             (results, raised) \<Rightarrow> (result # results, raised)))"

subsection \<open>One response batch (lines 162-228)\<close>

text \<open>
  The two tables are built from the whole response (lines 181-195) before the loop over
  the comments starts (line 198); an exception raised while they are built leaves the
  generator before any record of the batch is yielded.
\<close>

definition build_tables :: "json \<Rightarrow> error + json table \<times> json table" where
  "build_tables response =
     bindE (build_payments response) (\<lambda>payments.
     bindE (build_toolbar_states response) (\<lambda>toolbar_states.
       Inr (payments, toolbar_states)))"

definition emit_batch ::
  "parser \<Rightarrow> json \<Rightarrow> comment list \<times> error option" where
  "emit_batch parse response =
     (case build_tables response of
        Inl e \<Rightarrow> ([], Some e)
      | Inr (payments, toolbar_states) \<Rightarrow>
          emit_comments parse payments toolbar_states
            (rev (search_dict response ''commentEntityPayload'')))"

text \<open>
  What one truthy response does: the records it yields, and either the exception it
  raises or the stack it leaves.
  \<^verbatim>\<open>
  error = next(search_dict(response, 'externalErrorMessage'), None)
  if error:
      raise YouTubeApiError(f"Error returned from YouTube API: {error}")
  actions = (list(search_dict(response, 'reloadContinuationItemsCommand'))
             + list(search_dict(response, 'appendContinuationItemsAction')))
  \<close>
\<close>

definition handle_response ::
  "parser \<Rightarrow> json \<Rightarrow> continuation list
     \<Rightarrow> comment list \<times> (error + continuation list)" where
  "handle_response parse response continuations =
     (if truthy (next_or (search_dict response ''externalErrorMessage'') JNull)
      then ([], Inl YouTubeApiError)
      else
        (case push_continuations
                (search_dict response ''reloadContinuationItemsCommand''
                   @ search_dict response ''appendContinuationItemsAction'')
                continuations of
           Inl e \<Rightarrow> ([], Inl e)
         | Inr continuations' \<Rightarrow>
             (case emit_batch parse response of
                (results, Some e) \<Rightarrow> (results, Inl e)
              | (results, None) \<Rightarrow> (results, Inr continuations'))))"

subsection \<open>The loop (lines 155-230)\<close>

text \<open>
  \<^verbatim>\<open>
  while continuations:
      continuation = continuations.pop()
      response = self.ajax_request(continuation, ytcfg)
      if not response:
          break
      ...
      time.sleep(sleep)
  \<close>
  One iteration yields some records and then either ends the generator (it finishes, or
  an exception leaves it) or goes on with a new stack.  An iteration that goes on has
  received a response, so it has used up at least one pending outcome of the transport:
  the loop is a total function of the stack and the world.
\<close>

datatype step = Stop "error option" | Continue "continuation list"

definition crawl_step ::
  "parser \<Rightarrow> json \<Rightarrow> continuation list \<Rightarrow> world
     \<Rightarrow> comment list \<times> step \<times> world" where
  "crawl_step parse ytcfg continuations w =
     (if continuations = [] then ([], Stop None, w)
      else
        (case ajax_request (snd (last continuations)) ytcfg 5 w of
           (Inl e, w') \<Rightarrow> ([], Stop (Some e), w')
         | (Inr None, w') \<Rightarrow> ([], Stop None, w')
         | (Inr (Some response), w') \<Rightarrow>
             if \<not> truthy response then ([], Stop None, w')
             else
               (case handle_response parse response (butlast continuations) of
                  (results, Inl e) \<Rightarrow> (results, Stop (Some e), w')
                | (results, Inr continuations') \<Rightarrow>
                    (results, Continue continuations', sleep BatchSleep w'))))"

lemma retry_loop_consumes:
  "retry_loop n url ytcfg data w = (Inr (Some doc), w') \<Longrightarrow>
     length (pending w') < length (pending w)"
proof (induction n arbitrary: w)
  case 0
  then show ?case by simp
next
  case (Suc n)
  show ?case
  proof (cases "getitem ytcfg ''INNERTUBE_API_KEY''")
    case (Inl e)
    with Suc.prems show ?thesis by simp
  next
    case (Inr key)
    obtain a w1 where post: "session_post (url, key, data) w = (a, w1)"
      by (cases "session_post (url, key, data) w")
    have le: "length (pending w1) \<le> length (pending w)"
      using post by (auto simp: session_post_def split: list.splits)
    have lt: "length (pending w1) < length (pending w)" if "a \<noteq> Timeout"
      using post that by (auto simp: session_post_def split: list.splits)
    show ?thesis
    proof (cases a)
      case (Response status_code body)
      show ?thesis
      proof (cases "status_code = 200 \<or> status_code = 403 \<or> status_code = 413")
        case True
        with Suc.prems Inr post Response lt show ?thesis
          by (auto split: option.splits if_splits)
      next
        case False
        with Suc.prems Inr post Response
        have "retry_loop n url ytcfg data (sleep RetrySleep w1) = (Inr (Some doc), w')"
          by simp
        from Suc.IH [OF this] le show ?thesis
          by (simp add: sleep_def)
      qed
    next
      case Timeout
      with Suc.prems Inr post
      have "retry_loop n url ytcfg data (sleep RetrySleep w1) = (Inr (Some doc), w')"
        by simp
      from Suc.IH [OF this] le show ?thesis
        by (simp add: sleep_def)
    next
      case Failure
      with Suc.prems Inr post show ?thesis by simp
    qed
  qed
qed

lemma ajax_request_consumes:
  "ajax_request endpoint ytcfg retries w = (Inr (Some doc), w') \<Longrightarrow>
     length (pending w') < length (pending w)"
  by (auto simp: ajax_request_def split: sum.splits dest: retry_loop_consumes)

lemma crawl_step_consumes:
  "crawl_step parse ytcfg continuations w = (results, Continue continuations', w') \<Longrightarrow>
     length (pending w') < length (pending w)"
  by (auto simp: crawl_step_def sleep_def
      split: if_splits prod.splits sum.splits option.splits
      dest: ajax_request_consumes)

function crawl ::
  "parser \<Rightarrow> json \<Rightarrow> continuation list \<Rightarrow> world
     \<Rightarrow> comment list \<times> error option \<times> world" where
  "crawl parse ytcfg continuations w =
     (case crawl_step parse ytcfg continuations w of
        (results, Stop raised, w') \<Rightarrow> (results, raised, w')
      | (results, Continue continuations', w') \<Rightarrow>
          (case crawl parse ytcfg continuations' w' of
             (later, raised, w'') \<Rightarrow> (results @ later, raised, w'')))"
  by pat_completeness auto
termination
  by (relation "measure (\<lambda>(parse, ytcfg, continuations, w). length (pending w))")
    (auto dest: crawl_step_consumes [OF sym])

declare crawl.simps [simp del]

section \<open>The generator (downloader.py, get_comments_from_url)\<close>

text \<open>
  The generator is modelled by what it does when it is consumed to its end: the records
  it yields, in order, the exception that ends it (\<open>None\<close> when it just finishes) and the
  world it leaves.  A consumer that stops early sees an initial part of this.  The fetch
  of the page and the answer to the consent form come before line 121 and are not
  modelled; \<open>pg\<close> is the working page they produce.
\<close>

definition get_comments_from_url ::
  "(string \<Rightarrow> error + json) \<Rightarrow> parser \<Rightarrow> page \<Rightarrow> int \<Rightarrow> string option
     \<Rightarrow> world \<Rightarrow> comment list \<times> error option \<times> world" where
  "get_comments_from_url loads parse pg sort_by language w =
     (case bootstrap loads pg language of
        Inl e \<Rightarrow> ([], Some e, w)
      | Inr (ytcfg, data) \<Rightarrow>
          if \<not> truthy (comments_renderer data) then ([], Some CommentsDisabledError, w)
          else
            (case find_sort_menu data ytcfg w of
               (Inl e, w') \<Rightarrow> ([], Some e, w')
             | (Inr sort_menu, w') \<Rightarrow>
                 (case seed_endpoint sort_menu sort_by of
                    Inl e \<Rightarrow> ([], Some e, w')
                  | Inr endpoint \<Rightarrow> crawl parse ytcfg [(Seed, endpoint)] w')))"

section \<open>Properties of the nested-structure search\<close>

text \<open>
  \<open>found\<close> lists the yielded values in the order of the traversal: the matching entries
  of a dict first, then what the search finds below its other values, last value first
  (the last value pushed is the first popped).  A matching value is yielded and not
  pushed, so nothing below it is visited.
\<close>

lemma weight_member: "x \<in> set xs \<Longrightarrow> weight x \<le> sum_list (map weight xs)"
  by (induction xs) auto

function (sequential) found :: "string \<Rightarrow> json \<Rightarrow> json list" where
  "found k (JDict items) = yielded k items @ concat (map (found k) (rev (appended k items)))"
| "found k (JList xs) = concat (map (found k) (rev xs))"
| "found k _ = []"
  by pat_completeness auto
termination
proof (relation "measure (\<lambda>(k, t). weight t)", goal_cases)
  case 1
  show ?case by simp
next
  case (2 k items x)
  then have "weight x \<le> sum_list (map weight (appended k items))"
    by (simp add: weight_member)
  with weight_appended [of k items] show ?case
    by simp
next
  case (3 k xs x)
  then have "weight x \<le> sum_list (map weight xs)"
    by (simp add: weight_member)
  then show ?case
    by simp
qed

text \<open>
  The entries the search reports, in document order: every entry with the searched key
  that does not lie inside the value of another entry with that key.
\<close>

fun outer_entries :: "string \<Rightarrow> json \<Rightarrow> json list" where
  "outer_entries k (JDict items) =
     concat (map (\<lambda>kv. if fst kv = k then [snd kv] else outer_entries k (snd kv)) items)"
| "outer_entries k (JList xs) = concat (map (outer_entries k) xs)"
| "outer_entries k _ = []"

text \<open>
  The specification's reading: the value of every entry with the searched key, at any
  depth, also below the value of an entry that has the key itself.
\<close>

fun all_entries :: "string \<Rightarrow> json \<Rightarrow> json list" where
  "all_entries k (JDict items) =
     concat (map (\<lambda>kv. (if fst kv = k then [snd kv] else []) @ all_entries k (snd kv)) items)"
| "all_entries k (JList xs) = concat (map (all_entries k) xs)"
| "all_entries k _ = []"

text \<open>All keys that occur anywhere in a document.\<close>

fun keys_of :: "json \<Rightarrow> string set" where
  "keys_of (JDict items) = fst ` set items \<union> (\<Union>kv \<in> set items. keys_of (snd kv))"
| "keys_of (JList xs) = (\<Union>x \<in> set xs. keys_of x)"
| "keys_of _ = {}"

lemma search_stack_found: "search_stack stack k = concat (map (found k) (rev stack))"
proof (induction stack k rule: search_stack.induct)
  case (1 stack k)
  show ?case
  proof (cases "stack = []")
    case True
    then show ?thesis by (simp add: search_stack.simps)
  next
    case False
    then obtain st x where stack: "stack = st @ [x]"
      by (metis rev_exhaust)
    show ?thesis
    proof (cases x)
      case (JDict items)
      have "search_stack (st @ appended k items) k
              = concat (map (found k) (rev (st @ appended k items)))"
        using "1.IH" False stack JDict by simp
      then show ?thesis
        unfolding stack by (subst search_stack.simps) (simp add: JDict)
    next
      case (JList xs)
      have "search_stack (st @ xs) k = concat (map (found k) (rev (st @ xs)))"
        using "1.IH" False stack JList by simp
      then show ?thesis
        unfolding stack by (subst search_stack.simps) (simp add: JList)
    next
      case JNull
      have "search_stack st k = concat (map (found k) (rev st))"
        using "1.IH" False stack JNull by simp
      then show ?thesis
        unfolding stack by (subst search_stack.simps) (simp add: JNull)
    next
      case (JBool b)
      have "search_stack st k = concat (map (found k) (rev st))"
        using "1.IH" False stack JBool by simp
      then show ?thesis
        unfolding stack by (subst search_stack.simps) (simp add: JBool)
    next
      case (JNum n)
      have "search_stack st k = concat (map (found k) (rev st))"
        using "1.IH" False stack JNum by simp
      then show ?thesis
        unfolding stack by (subst search_stack.simps) (simp add: JNum)
    next
      case (JStr s)
      have "search_stack st k = concat (map (found k) (rev st))"
        using "1.IH" False stack JStr by simp
      then show ?thesis
        unfolding stack by (subst search_stack.simps) (simp add: JStr)
    qed
  qed
qed

lemma search_dict_found: "search_dict t k = found k t"
  by (simp add: search_dict_def search_stack_found)

lemma mset_concat_rev: "mset (concat (map f (rev xs))) = mset (concat (map f xs))"
  by (induction xs) auto

lemma mset_concat_cong:
  "(\<And>x. x \<in> set xs \<Longrightarrow> mset (f x) = mset (g x)) \<Longrightarrow>
     mset (concat (map f xs)) = mset (concat (map g xs))"
  by (induction xs) auto

lemma mset_dict_entries:
  "mset (yielded k items) + mset (concat (map f (appended k items)))
     = mset (concat (map (\<lambda>kv. if fst kv = k then [snd kv] else f (snd kv)) items))"
  by (induction items) (auto simp: yielded_def appended_def)

lemma mset_found: "mset (found k t) = mset (outer_entries k t)"
proof (induction k t rule: found.induct)
  case (1 k items)
  have "mset (concat (map (found k) (appended k items)))
          = mset (concat (map (outer_entries k) (appended k items)))"
    by (rule mset_concat_cong) (simp add: 1)
  then show ?case
    by (simp add: mset_concat_rev mset_dict_entries [symmetric])
next
  case (2 k xs)
  have "mset (concat (map (found k) xs)) = mset (concat (map (outer_entries k) xs))"
    by (rule mset_concat_cong) (simp add: 2)
  then show ?case
    by (simp add: mset_concat_rev)
qed simp_all

lemma found_absent: "k \<notin> keys_of t \<Longrightarrow> found k t = []"
proof (induction k t rule: found.induct)
  case (1 k items)
  then have "yielded k items = []"
    by (auto simp: yielded_def filter_empty_conv)
  moreover have "\<And>x. x \<in> set (appended k items) \<Longrightarrow> found k x = []"
    using 1 by (auto simp: appended_def)
  ultimately show ?case by simp
next
  case (2 k xs)
  then show ?case by auto
qed simp_all

definition nested_tree :: json where
  "nested_tree =
     JDict [(''a'', JDict [(''a'', JStr ''inner'')]),
            (''b'', JList [JDict [(''a'', JStr ''sibling'')], JNum 1])]"

text \<open>
  C2, as stated, fails: the search does not look inside a value it has yielded.  In
  \<open>{"a": {"a": "inner"}, "b": [{"a": "sibling"}, 1]}\<close> three entries have the key
  \<open>a\<close>; the search yields two values, the entry nested in the value of the outer
  \<open>a\<close> is never reached.
\<close>

theorem search_dict_misses_nested_entry:
  "search_dict nested_tree ''a'' = [JDict [(''a'', JStr ''inner'')], JStr ''sibling'']
     \<and> all_entries ''a'' nested_tree
         = [JDict [(''a'', JStr ''inner'')], JStr ''inner'', JStr ''sibling'']"
  by (simp add: nested_tree_def search_dict_found yielded_def appended_def)

text \<open>
  C2, amended: for every tree \<open>T\<close> and key \<open>K\<close> the search yields exactly (with
  multiplicity) the values of the entries of \<open>T\<close> with key \<open>K\<close> that are not nested
  inside the value of another entry with key \<open>K\<close>, at any depth and through any mix of
  dicts and lists; it yields nothing when \<open>K\<close> occurs nowhere in \<open>T\<close>.
\<close>

theorem search_dict_outer_entries:
  "mset (search_dict T K) = mset (outer_entries K T)
     \<and> (K \<notin> keys_of T \<longrightarrow> search_dict T K = [])"
  by (simp add: search_dict_found mset_found found_absent)

theorem search_dict_outer_entries_witness:
  "''c'' \<notin> keys_of nested_tree \<and> search_dict nested_tree ''c'' = []
     \<and> mset (search_dict nested_tree ''a'') = mset (outer_entries ''a'' nested_tree)"
  using search_dict_outer_entries [of nested_tree "''c''"]
    search_dict_outer_entries [of nested_tree "''a''"]
  by (simp add: nested_tree_def)

section \<open>Properties of the request client\<close>

text \<open>
  An attempt after which the loop goes on to \<^verbatim>\<open>time.sleep\<close> and the next attempt: a
  timeout, or a response whose status is none of 200, 403, 413.
\<close>

fun retried :: "attempt \<Rightarrow> bool" where
  "retried (Response status_code body) =
     (status_code \<noteq> 200 \<and> status_code \<noteq> 403 \<and> status_code \<noteq> 413)"
| "retried Timeout = True"
| "retried Failure = False"

text \<open>
  The world after \<open>p\<close> POSTs of the same request and \<open>s\<close> retry sleeps, with \<open>rest\<close>
  left of the transport.
\<close>

definition after_attempts :: "nat \<Rightarrow> nat \<Rightarrow> request \<Rightarrow> attempt list \<Rightarrow> world \<Rightarrow> world" where
  "after_attempts p s req rest w =
     w\<lparr>pending := rest, posts := posts w @ replicate p req,
       naps := naps w @ replicate s RetrySleep\<rparr>"

lemma retry_loop_retried:
  "list_all retried pre \<Longrightarrow> getitem ytcfg ''INNERTUBE_API_KEY'' = Inr key \<Longrightarrow>
   pending w = pre @ rest \<Longrightarrow> length pre \<le> n \<Longrightarrow>
     retry_loop n url ytcfg data w
       = retry_loop (n - length pre) url ytcfg data
           (after_attempts (length pre) (length pre) (url, key, data) rest w)"
proof (induction pre arbitrary: n w)
  case Nil
  then have "rest = pending w" by simp
  then show ?case by (simp add: after_attempts_def)
next
  case (Cons a pre)
  then obtain m where n: "n = Suc m" by (cases n) auto
  let ?w = "sleep RetrySleep (snd (session_post (url, key, data) w))"
  have step: "retry_loop n url ytcfg data w = retry_loop m url ytcfg data ?w"
    using Cons.prems n by (cases a) (auto simp: session_post_def)
  have pend: "pending ?w = pre @ rest"
    using Cons.prems by (simp add: session_post_def sleep_def)
  have "retry_loop m url ytcfg data ?w
          = retry_loop (m - length pre) url ytcfg data
              (after_attempts (length pre) (length pre) (url, key, data) rest ?w)"
    using Cons.prems n pend by (intro Cons.IH) auto
  moreover have "after_attempts (length pre) (length pre) (url, key, data) rest ?w
      = after_attempts (length (a # pre)) (length (a # pre)) (url, key, data) rest w"
    using Cons.prems
    by (simp add: after_attempts_def session_post_def sleep_def replicate_append_same)
  ultimately show ?case using step n by simp
qed

definition example_endpoint :: json where
  "example_endpoint =
     JDict [(''commandMetadata'',
              JDict [(''webCommandMetadata'', JDict [(''apiUrl'', JStr ''/youtubei/v1/next'')])]),
            (''continuationCommand'', JDict [(''token'', JStr ''t0'')])]"

definition example_ytcfg :: json where
  "example_ytcfg =
     JDict [(''INNERTUBE_API_KEY'', JStr ''k''),
            (''INNERTUBE_CONTEXT'', JDict [(''client'', JDict [(''hl'', JStr ''en'')])])]"

text \<open>
  C3: when the attempts before it were all retried and the retry budget is not used up, a
  403 or 413 response makes the client return the empty document at once: the POST that
  received it is the last one, the only sleeps are those after the earlier failed
  attempts, and the rest of the transport is left untouched.
\<close>

theorem ajax_request_403_immediate:
  assumes "request_url endpoint = Inr url"
    and "request_data endpoint ytcfg = Inr data"
    and "getitem ytcfg ''INNERTUBE_API_KEY'' = Inr key"
    and "list_all retried pre"
    and "length pre < nat retries"
    and "status_code = 403 \<or> status_code = 413"
    and "pending w = pre @ Response status_code body # rest"
  shows "ajax_request endpoint ytcfg retries w
           = (Inr (Some (JDict [])),
              after_attempts (Suc (length pre)) (length pre) (url, key, data) rest w)"
proof -
  let ?w = "after_attempts (length pre) (length pre) (url, key, data)
              (Response status_code body # rest) w"
  obtain m where m: "nat retries - length pre = Suc m"
    using assms(5) by (cases "nat retries - length pre") auto
  have "retry_loop (nat retries) url ytcfg data w
          = retry_loop (nat retries - length pre) url ytcfg data ?w"
    using assms by (intro retry_loop_retried) auto
  also have "\<dots> = (Inr (Some (JDict [])),
              after_attempts (Suc (length pre)) (length pre) (url, key, data) rest w)"
    using assms(3,6)
    by (auto simp: m session_post_def after_attempts_def replicate_append_same)
  finally show ?thesis
    using assms(1,2) by (simp add: ajax_request_def)
qed

theorem ajax_request_403_immediate_witness:
  "ajax_request example_endpoint example_ytcfg 5
     \<lparr>pending = [Response 403 None, Response 200 (Some (JStr ''unused''))], posts = [], naps = []\<rparr>
   = (Inr (Some (JDict [])),
      \<lparr>pending = [Response 200 (Some (JStr ''unused''))],
       posts = [(''https://www.youtube.com/youtubei/v1/next'', JStr ''k'',
                 JDict [(''context'', JDict [(''client'', JDict [(''hl'', JStr ''en'')])]),
                        (''continuation'', JStr ''t0'')])],
       naps = []\<rparr>)"
  using ajax_request_403_immediate [of example_endpoint
      "''https://www.youtube.com/youtubei/v1/next''" example_ytcfg
      "JDict [(''context'', JDict [(''client'', JDict [(''hl'', JStr ''en'')])]),
              (''continuation'', JStr ''t0'')]"
      "JStr ''k''" "[]" 5 403
      "\<lparr>pending = [Response 403 None, Response 200 (Some (JStr ''unused''))], posts = [], naps = []\<rparr>"
      None "[Response 200 (Some (JStr ''unused''))]"]
  by (simp add: example_endpoint_def example_ytcfg_def request_url_def request_data_def
      bindE_def after_attempts_def)

text \<open>
  C4, amended: a timeout and a status other than 200, 403, 413 are retried alike, and
  when all \<open>retries\<close> attempts end that way the client returns \<^verbatim>\<open>None\<close> after
  \<open>retries\<close> POSTs and as many sleeps; an exception of the POST other than a timeout
  is not retried: it leaves the client on the attempt that raised it.
\<close>

theorem ajax_request_retry_policy:
  assumes "request_url endpoint = Inr url"
    and "request_data endpoint ytcfg = Inr data"
    and "getitem ytcfg ''INNERTUBE_API_KEY'' = Inr key"
    and "list_all retried pre"
  shows "(length pre = nat retries \<and> pending w = pre @ rest \<longrightarrow>
            ajax_request endpoint ytcfg retries w
              = (Inr None, after_attempts (nat retries) (nat retries) (url, key, data) rest w))
       \<and> (length pre < nat retries \<and> pending w = pre @ Failure # rest \<longrightarrow>
            ajax_request endpoint ytcfg retries w
              = (Inl RequestException,
                 after_attempts (Suc (length pre)) (length pre) (url, key, data) rest w))"
proof (intro conjI impI)
  assume a: "length pre = nat retries \<and> pending w = pre @ rest"
  have "retry_loop (nat retries) url ytcfg data w
          = retry_loop (nat retries - length pre) url ytcfg data
              (after_attempts (length pre) (length pre) (url, key, data) rest w)"
    using assms a by (intro retry_loop_retried) auto
  then show "ajax_request endpoint ytcfg retries w
      = (Inr None, after_attempts (nat retries) (nat retries) (url, key, data) rest w)"
    using assms(1,2) a by (simp add: ajax_request_def)
next
  assume a: "length pre < nat retries \<and> pending w = pre @ Failure # rest"
  obtain m where m: "nat retries - length pre = Suc m"
    using a by (cases "nat retries - length pre") auto
  have "retry_loop (nat retries) url ytcfg data w
          = retry_loop (nat retries - length pre) url ytcfg data
              (after_attempts (length pre) (length pre) (url, key, data) (Failure # rest) w)"
    using assms a by (intro retry_loop_retried) auto
  also have "\<dots> = (Inl RequestException,
                 after_attempts (Suc (length pre)) (length pre) (url, key, data) rest w)"
    using assms(3)
    by (auto simp: m session_post_def after_attempts_def replicate_append_same)
  finally show "ajax_request endpoint ytcfg retries w
      = (Inl RequestException,
         after_attempts (Suc (length pre)) (length pre) (url, key, data) rest w)"
    using assms(1,2) by (simp add: ajax_request_def)
qed

theorem ajax_request_retry_policy_witness:
  "ajax_request example_endpoint example_ytcfg 2
     \<lparr>pending = [Response 500 None, Timeout, Response 200 (Some (JStr ''late''))],
      posts = [], naps = []\<rparr>
   = (Inr None,
      after_attempts 2 2
        (''https://www.youtube.com/youtubei/v1/next'', JStr ''k'',
         JDict [(''context'', JDict [(''client'', JDict [(''hl'', JStr ''en'')])]),
                (''continuation'', JStr ''t0'')])
        [Response 200 (Some (JStr ''late''))]
        \<lparr>pending = [Response 500 None, Timeout, Response 200 (Some (JStr ''late''))],
         posts = [], naps = []\<rparr>)
   \<and> ajax_request example_endpoint example_ytcfg 2
     \<lparr>pending = [Response 500 None, Failure], posts = [], naps = []\<rparr>
   = (Inl RequestException,
      after_attempts 2 1
        (''https://www.youtube.com/youtubei/v1/next'', JStr ''k'',
         JDict [(''context'', JDict [(''client'', JDict [(''hl'', JStr ''en'')])]),
                (''continuation'', JStr ''t0'')])
        []
        \<lparr>pending = [Response 500 None, Failure], posts = [], naps = []\<rparr>)"
  using ajax_request_retry_policy [of example_endpoint
      "''https://www.youtube.com/youtubei/v1/next''" example_ytcfg
      "JDict [(''context'', JDict [(''client'', JDict [(''hl'', JStr ''en'')])]),
              (''continuation'', JStr ''t0'')]"
      "JStr ''k''" "[Response 500 None, Timeout]" 2
      "\<lparr>pending = [Response 500 None, Timeout, Response 200 (Some (JStr ''late''))],
        posts = [], naps = []\<rparr>"
      "[Response 200 (Some (JStr ''late''))]"]
    ajax_request_retry_policy [of example_endpoint
      "''https://www.youtube.com/youtubei/v1/next''" example_ytcfg
      "JDict [(''context'', JDict [(''client'', JDict [(''hl'', JStr ''en'')])]),
              (''continuation'', JStr ''t0'')]"
      "JStr ''k''" "[Response 500 None]" 2
      "\<lparr>pending = [Response 500 None, Failure], posts = [], naps = []\<rparr>" "[]"]
  by (simp add: example_endpoint_def example_ytcfg_def request_url_def request_data_def
      bindE_def numeral_2_eq_2)

text \<open>
  C4, as stated, fails for exceptions: only \<^verbatim>\<open>requests.exceptions.Timeout\<close> is caught.
  With five retries allowed, a POST that raises another exception ends the call on the
  first attempt; the response a second attempt would have received is never requested.
\<close>

theorem ajax_request_exception_propagates:
  "ajax_request example_endpoint example_ytcfg 5
     \<lparr>pending = [Failure, Response 200 (Some (JStr ''never requested''))],
      posts = [], naps = []\<rparr>
   = (Inl RequestException,
      \<lparr>pending = [Response 200 (Some (JStr ''never requested''))],
       posts = [(''https://www.youtube.com/youtubei/v1/next'', JStr ''k'',
                 JDict [(''context'', JDict [(''client'', JDict [(''hl'', JStr ''en'')])]),
                        (''continuation'', JStr ''t0'')])],
       naps = []\<rparr>)"
  by (simp add: ajax_request_def example_endpoint_def example_ytcfg_def request_url_def
      request_data_def bindE_def session_post_def eval_nat_numeral)

section \<open>Properties of bootstrap and sort resolution\<close>

text \<open>A small watch page: a client configuration, a comment section and a sort menu of two entries.\<close>

definition token_endpoint :: "string \<Rightarrow> json" where
  "token_endpoint token =
     JDict [(''commandMetadata'',
              JDict [(''webCommandMetadata'', JDict [(''apiUrl'', JStr ''/youtubei/v1/next'')])]),
            (''continuationCommand'', JDict [(''token'', JStr token)])]"

definition example_data :: json where
  "example_data =
     JDict [(''itemSectionRenderer'',
              JDict [(''continuationItemRenderer'', JDict [(''trigger'', JStr ''x'')])]),
            (''sortFilterSubMenuRenderer'',
              JDict [(''subMenuItems'',
                JList [JDict [(''serviceEndpoint'', token_endpoint ''top'')],
                       JDict [(''serviceEndpoint'', token_endpoint ''new'')]])])]"

definition example_cfg_text :: string where
  \<open>example_cfg_text =
     ''{"INNERTUBE_API_KEY": "k", "INNERTUBE_CONTEXT": {"client": {"hl": "en"}}}''\<close>

definition example_data_text :: string where
  \<open>example_data_text =
     ''{"itemSectionRenderer": {"continuationItemRenderer": {"trigger": "x"}}, "sortFilterSubMenuRenderer": {"subMenuItems": [{"serviceEndpoint": {"commandMetadata": {"webCommandMetadata": {"apiUrl": "/youtubei/v1/next"}}, "continuationCommand": {"token": "top"}}}, {"serviceEndpoint": {"commandMetadata": {"webCommandMetadata": {"apiUrl": "/youtubei/v1/next"}}, "continuationCommand": {"token": "new"}}}]}}''\<close>

definition keyed_cfg_text :: string where
  \<open>keyed_cfg_text = ''{"INNERTUBE_API_KEY": "k"}''\<close>

definition example_loads :: "string \<Rightarrow> error + json" where
  "example_loads s =
     (if s = ''{}'' then Inr (JDict [])
      else if s = example_cfg_text then Inr example_ytcfg
      else if s = keyed_cfg_text then Inr (JDict [(''INNERTUBE_API_KEY'', JStr ''k'')])
      else if s = example_data_text then Inr example_data
      else Inl JSONDecodeError)"

definition example_page :: page where
  "example_page = \<lparr>cfg_match = Some example_cfg_text, data_match = Some example_data_text\<rparr>"

text \<open>A parser for which no text is a date.\<close>

definition no_date :: parser where
  "no_date = (\<lambda>s. Inr None)"

definition idle_world :: world where
  "idle_world = \<lparr>pending = [], posts = [], naps = []\<rparr>"

lemma example_bootstrap:
  "bootstrap example_loads example_page None = Inr (example_ytcfg, example_data)"
  by (simp add: bootstrap_def example_loads_def example_page_def regex_search_def bindE_def
      example_cfg_text_def example_data_text_def keyed_cfg_text_def example_ytcfg_def
      apply_language_def)

lemma example_renderer: "truthy (comments_renderer example_data)"
  by (simp add: comments_renderer_def example_data_def search_dict_found yielded_def
      appended_def next_or_def)

lemma example_sort_menu:
  "find_sort_menu example_data example_ytcfg w
     = (Inr (JList [JDict [(''serviceEndpoint'', token_endpoint ''top'')],
                    JDict [(''serviceEndpoint'', token_endpoint ''new'')]]), w)"
  by (simp add: find_sort_menu_def sort_menu_of_def example_data_def search_dict_found
      yielded_def appended_def next_or_def)

text \<open>
  C6: when the discovered sort menu is a list and the requested index is at least its
  length (or the menu is empty, whatever the index, also after the fallback request), the
  resolution raises \<open>SortingError\<close> and the generator ends with it: no entry is chosen
  in its place.
\<close>

theorem sort_index_out_of_range:
  assumes "bootstrap loads pg language = Inr (ytcfg, data)"
    and "truthy (comments_renderer data)"
    and "find_sort_menu data ytcfg w = (Inr (JList sort_menu), w')"
    and "sort_menu = [] \<or> int (length sort_menu) \<le> sort_by"
  shows "seed_endpoint (JList sort_menu) sort_by = Inl SortingError
     \<and> get_comments_from_url loads parse pg sort_by language w = ([], Some SortingError, w')"
proof -
  have "seed_endpoint (JList sort_menu) sort_by = Inl SortingError"
    using assms(4) by (auto simp: seed_endpoint_def bindE_def)
  then show ?thesis
    using assms(1-3) by (simp add: get_comments_from_url_def)
qed

theorem sort_index_out_of_range_witness:
  "get_comments_from_url example_loads no_date example_page 2 None idle_world
     = ([], Some SortingError, idle_world)"
  using sort_index_out_of_range [OF example_bootstrap example_renderer
      example_sort_menu [of idle_world], where sort_by = 2 and parse = no_date]
  by simp

text \<open>
  C9: a negative index whose absolute value is below the length of the menu passes the
  bounds check; the seed is the service endpoint of the entry counted from the end (the
  last entry for \<open>-1\<close>), and the only errors left are those of reading that entry,
  never \<open>SortingError\<close>.
\<close>

theorem negative_sort_index_counts_from_end:
  assumes "sort_by < 0" and "nat (- sort_by) < length sort_menu"
  shows "seed_endpoint (JList sort_menu) sort_by
           = getitem (sort_menu ! (length sort_menu - nat (- sort_by))) ''serviceEndpoint''
     \<and> seed_endpoint (JList sort_menu) sort_by \<noteq> Inl SortingError
     \<and> (sort_by = - 1 \<longrightarrow>
          seed_endpoint (JList sort_menu) sort_by = getitem (last sort_menu) ''serviceEndpoint'')"
proof -
  let ?j = "length sort_menu - nat (- sort_by)"
  have idx: "index_of (length sort_menu) sort_by = Some ?j"
    using assms by (auto simp: index_of_def Let_def)
  have ne: "sort_menu \<noteq> []"
    using assms by auto
  have eq: "seed_endpoint (JList sort_menu) sort_by = getitem (sort_menu ! ?j) ''serviceEndpoint''"
    using assms ne idx by (simp add: seed_endpoint_def bindE_def)
  have "getitem x ''serviceEndpoint'' \<noteq> Inl SortingError" for x
    by (cases x) (auto split: option.splits)
  moreover have "sort_menu ! (length sort_menu - 1) = last sort_menu"
    using ne by (simp add: last_conv_nth)
  ultimately show ?thesis
    using eq by auto
qed

theorem negative_sort_index_counts_from_end_witness:
  "seed_endpoint (JList [JDict [(''serviceEndpoint'', token_endpoint ''top'')],
                         JDict [(''serviceEndpoint'', token_endpoint ''new'')]]) (- 1)
     = Inr (token_endpoint ''new'')"
  using negative_sort_index_counts_from_end [of "- 1"
      "[JDict [(''serviceEndpoint'', token_endpoint ''top'')],
        JDict [(''serviceEndpoint'', token_endpoint ''new'')]]"]
  by simp


lemma comments_renderer_empty: "comments_renderer (JDict []) = JNull"
  by (simp add: comments_renderer_def search_dict_found yielded_def appended_def next_or_def)

text \<open>
  C7, amended: a page without the initial-data marker makes the generator fail before any
  request is sent and before any record is yielded (the world is unchanged).  The failure
  is \<open>CommentDownloadError\<close> when the configuration is missing or empty.  When a
  non-empty configuration was extracted, it is the exception of the language override if
  one is given and cannot be applied (a \<open>KeyError\<close> for a configuration without
  \<open>INNERTUBE_CONTEXT\<close>), and \<open>CommentsDisabledError\<close> otherwise.  A configuration text
  that does not decode fails with the exception of the decoder.
\<close>

theorem missing_initial_data_fails_before_requests:
  assumes "data_match pg = None" and "loads ''{}'' = Inr (JDict [])"
  shows "get_comments_from_url loads parse pg sort_by language w
           = ([],
              Some (case loads (regex_search (cfg_match pg) ''{}'') of
                      Inl e \<Rightarrow> e
                    | Inr ytcfg \<Rightarrow>
                        if \<not> truthy ytcfg then CommentDownloadError
                        else (case apply_language language ytcfg of
                                Inl e \<Rightarrow> e
                              | Inr ytcfg' \<Rightarrow> CommentsDisabledError)),
              w)
     \<and> (cfg_match pg = None \<longrightarrow>
          get_comments_from_url loads parse pg sort_by language w
            = ([], Some CommentDownloadError, w))"
proof -
  have data: "loads (regex_search (data_match pg) ''{}'') = Inr (JDict [])"
    using assms by (simp add: regex_search_def)
  have main: "get_comments_from_url loads parse pg sort_by language w
           = ([],
              Some (case loads (regex_search (cfg_match pg) ''{}'') of
                      Inl e \<Rightarrow> e
                    | Inr ytcfg \<Rightarrow>
                        if \<not> truthy ytcfg then CommentDownloadError
                        else (case apply_language language ytcfg of
                                Inl e \<Rightarrow> e
                              | Inr ytcfg' \<Rightarrow> CommentsDisabledError)),
              w)"
  proof (cases "loads (regex_search (cfg_match pg) ''{}'')")
    case (Inl e)
    then show ?thesis
      by (simp add: get_comments_from_url_def bootstrap_def bindE_def)
  next
    case (Inr ytcfg)
    show ?thesis
    proof (cases "truthy ytcfg")
      case False
      with Inr show ?thesis
        by (simp add: get_comments_from_url_def bootstrap_def bindE_def)
    next
      case True
      with Inr data show ?thesis
        by (cases "apply_language language ytcfg")
          (simp_all add: get_comments_from_url_def bootstrap_def bindE_def
            comments_renderer_empty)
    qed
  qed
  moreover have "loads (regex_search (cfg_match pg) ''{}'') = Inr (JDict [])"
    if "cfg_match pg = None"
    using that assms(2) by (simp add: regex_search_def)
  ultimately show ?thesis
    by simp
qed

text \<open>Pages without initial data: no configuration, the full one, one with the key only.\<close>

definition bare_page :: page where
  "bare_page = \<lparr>cfg_match = None, data_match = None\<rparr>"

definition cfg_only_page :: page where
  "cfg_only_page = \<lparr>cfg_match = Some example_cfg_text, data_match = None\<rparr>"

definition keyed_page :: page where
  "keyed_page = \<lparr>cfg_match = Some keyed_cfg_text, data_match = None\<rparr>"

theorem missing_initial_data_fails_before_requests_witness:
  "get_comments_from_url example_loads no_date bare_page 1 None idle_world
     = ([], Some CommentDownloadError, idle_world)
   \<and> get_comments_from_url example_loads no_date cfg_only_page 1 (Some ''de'') idle_world
     = ([], Some CommentsDisabledError, idle_world)
   \<and> get_comments_from_url example_loads no_date keyed_page 1 (Some ''de'') idle_world
     = ([], Some KeyError, idle_world)"
  using missing_initial_data_fails_before_requests [of bare_page example_loads no_date 1 None
      idle_world]
    missing_initial_data_fails_before_requests [of cfg_only_page example_loads no_date 1
      "Some ''de''" idle_world]
    missing_initial_data_fails_before_requests [of keyed_page example_loads no_date 1
      "Some ''de''" idle_world]
  by (simp add: bare_page_def cfg_only_page_def keyed_page_def example_loads_def
      regex_search_def example_cfg_text_def keyed_cfg_text_def example_data_text_def
      example_ytcfg_def apply_language_def set_language_def bindE_def)

text \<open>
  C7, as stated, fails: with a configuration on the page and no initial data, the data
  default to the empty dict, no comment section is found in it, and the failure is
  \<open>CommentsDisabledError\<close>, not the configuration-extraction failure.
\<close>

theorem missing_initial_data_reports_comments_disabled:
  "get_comments_from_url example_loads no_date cfg_only_page 1 None
     \<lparr>pending = [Response 200 (Some (JDict []))], posts = [], naps = []\<rparr>
   = ([], Some CommentsDisabledError,
      \<lparr>pending = [Response 200 (Some (JDict []))], posts = [], naps = []\<rparr>)"
  by (simp add: get_comments_from_url_def bootstrap_def example_loads_def cfg_only_page_def
      regex_search_def bindE_def example_cfg_text_def keyed_cfg_text_def example_ytcfg_def
      comments_renderer_empty apply_language_def)

section \<open>Properties of a response batch\<close>

text \<open>
  C8, amended: take a payload all of whose other fields can be read, and whose published
  time is no string or is a string for which the parser reports no date
  (\<^verbatim>\<open>dateparser.parse\<close> returns \<^verbatim>\<open>None\<close>).  Then the record is emitted with every other
  field set from the payload and without \<open>time_parsed\<close>, and the loop goes on to the
  next payload.  (An exception of the parser other than \<^verbatim>\<open>AttributeError\<close> is not part
  of this statement.)
\<close>

theorem unparseable_time_still_emitted:
  assumes "getitem c ''properties'' = Inr properties"
    and "getitem properties ''commentId'' = Inr comment_id"
    and "getitem c ''author'' = Inr author_payload"
    and "getitem c ''toolbar'' = Inr toolbar"
    and "getitem properties ''toolbarStateKey'' = Inr state_key"
    and "py_hash state_key = Inr k"
    and "map_of toolbar_states k = Some toolbar_state"
    and "getitem properties ''content'' = Inr content"
    and "getitem content ''content'' = Inr content_text"
    and "getitem properties ''publishedTime'' = Inr published"
    and "getitem author_payload ''displayName'' = Inr display_name"
    and "getitem author_payload ''channelId'' = Inr channel_id"
    and "getitem toolbar ''likeCountNotliked'' = Inr (JStr like_count)"
    and "getitem toolbar ''replyCount'' = Inr reply_count"
    and "getitem author_payload ''avatarThumbnailUrl'' = Inr avatar"
    and "py_get toolbar_state ''heartState'' (JStr []) = Inr heart_state"
    and "contains ''.'' comment_id = Inr dotted"
    and "py_hash comment_id = Inr ck"
    and "\<forall>s. published = JStr s \<longrightarrow>
           parse (strip (takeWhile (\<lambda>c. c \<noteq> CHR ''('') s)) \<in> {Inr None, Inl AttributeError}"
  shows "emit_comment parse payments toolbar_states c
           = Inr \<lparr>cid = comment_id, text = content_text, time = published,
                  author = display_name, channel = channel_id,
                  votes = (if strip like_count = [] then ''0'' else strip like_count),
                  replies = reply_count, photo = avatar,
                  heart = (heart_state = JStr ''TOOLBAR_HEART_STATE_HEARTED''),
                  reply = dotted, time_parsed = None, paid = map_of payments ck\<rparr>
     \<and> emit_comments parse payments toolbar_states (c # rest)
         = (\<lparr>cid = comment_id, text = content_text, time = published,
              author = display_name, channel = channel_id,
              votes = (if strip like_count = [] then ''0'' else strip like_count),
              replies = reply_count, photo = avatar,
              heart = (heart_state = JStr ''TOOLBAR_HEART_STATE_HEARTED''),
              reply = dotted, time_parsed = None, paid = map_of payments ck\<rparr>
              # fst (emit_comments parse payments toolbar_states rest),
            snd (emit_comments parse payments toolbar_states rest))"
proof -
  have stamp: "parse_time parse published = Inr None"
  proof (cases published)
    case (JStr s)
    with assms(19) have "parse (strip (takeWhile (\<lambda>c. c \<noteq> CHR ''('') s))
        \<in> {Inr None, Inl AttributeError}"
      by simp
    with JStr show ?thesis
      by (auto simp: parse_time_def)
  qed (simp_all add: parse_time_def)
  have "emit_comment parse payments toolbar_states c
           = Inr \<lparr>cid = comment_id, text = content_text, time = published,
                  author = display_name, channel = channel_id,
                  votes = (if strip like_count = [] then ''0'' else strip like_count),
                  replies = reply_count, photo = avatar,
                  heart = (heart_state = JStr ''TOOLBAR_HEART_STATE_HEARTED''),
                  reply = dotted, time_parsed = None, paid = map_of payments ck\<rparr>"
    using assms(1-18) stamp by (simp add: emit_comment_def bindE_def lookup_def)
  then show ?thesis
    by (simp add: case_prod_beta)
qed


lemma emit_comments_prefix:
  "emit_comments parse payments toolbar_states cs = (results, raised) \<Longrightarrow>
     prefix (map Inr results) (map (emit_comment parse payments toolbar_states) cs)
     \<and> (raised = None \<longrightarrow>
          map Inr results = map (emit_comment parse payments toolbar_states) cs)"
proof (induction cs arbitrary: results raised)
  case Nil
  then show ?case by simp
next
  case (Cons c cs)
  show ?case
  proof (cases "emit_comment parse payments toolbar_states c")
    case (Inl e)
    with Cons.prems show ?thesis by auto
  next
    case (Inr r)
    obtain rs out where rest: "emit_comments parse payments toolbar_states cs = (rs, out)"
      by (cases "emit_comments parse payments toolbar_states cs")
    with Cons.prems Inr have "results = r # rs" and "raised = out"
      by auto
    with Cons.IH [OF rest] Inr show ?thesis
      by simp
  qed
qed






text \<open>
  A batch as the platform sends it: two comments, \<open>abc\<close> and its reply \<open>abc.def\<close>,
  and one toolbar state; in \<open>dangling_batch\<close> the reply names a toolbar state that is
  not in the batch.
\<close>

definition comment_payload :: "string \<Rightarrow> string \<Rightarrow> json" where
  "comment_payload comment_id state_key =
     JDict [(''properties'',
              JDict [(''commentId'', JStr comment_id),
                     (''content'', JDict [(''content'', JStr ''hello'')]),
                     (''publishedTime'', JStr ''2 days ago (edited)''),
                     (''toolbarStateKey'', JStr state_key)]),
            (''author'',
              JDict [(''displayName'', JStr ''@ann''),
                     (''channelId'', JStr ''UC1''),
                     (''avatarThumbnailUrl'', JStr ''https://yt3/ann'')]),
            (''toolbar'',
              JDict [(''likeCountNotliked'', JStr '' ''),
                     (''replyCount'', JStr ''1'')])]"

definition hearted_state :: json where
  "hearted_state =
     JDict [(''key'', JStr ''ts1''), (''heartState'', JStr ''TOOLBAR_HEART_STATE_HEARTED'')]"





definition example_record :: "string \<Rightarrow> bool \<Rightarrow> comment" where
  "example_record comment_id is_reply =
     \<lparr>cid = JStr comment_id, text = JStr ''hello'', time = JStr ''2 days ago (edited)'',
      author = JStr ''@ann'', channel = JStr ''UC1'', votes = ''0'', replies = JStr ''1'',
      photo = JStr ''https://yt3/ann'', heart = True, reply = is_reply,
      time_parsed = None, paid = None\<rparr>"

text \<open>
  A comment with a given published time, and a parser that behaves as the two library
  calls do on the three texts used here: \<open>2 days ago\<close> is a date, \<open>???\<close> is none
  (\<^verbatim>\<open>dateparser.parse\<close> returns \<^verbatim>\<open>None\<close>), and \<open>0001-01-01\<close> is a date before the range
  of \<^verbatim>\<open>timestamp()\<close>, which raises \<^verbatim>\<open>ValueError\<close>.
\<close>

definition timed_payload :: "string \<Rightarrow> json" where
  "timed_payload published =
     JDict [(''properties'',
              JDict [(''commentId'', JStr ''abc''),
                     (''content'', JDict [(''content'', JStr ''hello'')]),
                     (''publishedTime'', JStr published),
                     (''toolbarStateKey'', JStr ''ts1'')]),
            (''author'',
              JDict [(''displayName'', JStr ''@ann''),
                     (''channelId'', JStr ''UC1''),
                     (''avatarThumbnailUrl'', JStr ''https://yt3/ann'')]),
            (''toolbar'',
              JDict [(''likeCountNotliked'', JStr '' ''),
                     (''replyCount'', JStr ''1'')])]"

definition library_parser :: parser where
  "library_parser s =
     (if s = ''0001-01-01'' then Inl ValueError
      else if s = ''2 days ago'' then Inr (Some 1762041600)
      else Inr None)"

text \<open>
  C8, as stated, fails: the handler catches \<^verbatim>\<open>AttributeError\<close> only.  For the time
  \<open>0001-01-01\<close> the conversion to a timestamp raises \<^verbatim>\<open>ValueError\<close>; it leaves the
  emission, no record is made for the payload and the loop over the batch ends there.
\<close>

theorem out_of_range_time_raises:
  "emit_comment library_parser [] [(HStr ''ts1'', hearted_state)] (timed_payload ''0001-01-01'')
     = Inl ValueError
   \<and> emit_comments library_parser [] [(HStr ''ts1'', hearted_state)]
        [timed_payload ''0001-01-01'', comment_payload ''abc.def'' ''ts1'']
     = ([], Some ValueError)"
  by code_simp

theorem unparseable_time_still_emitted_witness:
  "emit_comment library_parser [] [(HStr ''ts1'', hearted_state)] (timed_payload ''??? (edited)'')
     = Inr ((example_record ''abc'' False)\<lparr>time := JStr ''??? (edited)''\<rparr>)
   \<and> emit_comments library_parser [] [(HStr ''ts1'', hearted_state)]
       [timed_payload ''??? (edited)'']
     = ([(example_record ''abc'' False)\<lparr>time := JStr ''??? (edited)''\<rparr>], None)"
  using unparseable_time_still_emitted [where c = "timed_payload ''??? (edited)''"
      and parse = library_parser and payments = "[]"
      and toolbar_states = "[(HStr ''ts1'', hearted_state)]" and rest = "[]"
      and properties = "JDict [(''commentId'', JStr ''abc''),
                               (''content'', JDict [(''content'', JStr ''hello'')]),
                               (''publishedTime'', JStr ''??? (edited)''),
                               (''toolbarStateKey'', JStr ''ts1'')]"
      and comment_id = "JStr ''abc''"
      and author_payload = "JDict [(''displayName'', JStr ''@ann''),
                                   (''channelId'', JStr ''UC1''),
                                   (''avatarThumbnailUrl'', JStr ''https://yt3/ann'')]"
      and toolbar = "JDict [(''likeCountNotliked'', JStr '' ''), (''replyCount'', JStr ''1'')]"
      and state_key = "JStr ''ts1''" and k = "HStr ''ts1''" and toolbar_state = hearted_state
      and content = "JDict [(''content'', JStr ''hello'')]" and content_text = "JStr ''hello''"
      and published = "JStr ''??? (edited)''"
      and display_name = "JStr ''@ann''" and channel_id = "JStr ''UC1''"
      and like_count = "'' ''" and reply_count = "JStr ''1''"
      and avatar = "JStr ''https://yt3/ann''"
      and heart_state = "JStr ''TOOLBAR_HEART_STATE_HEARTED''"
      and dotted = False and ck = "HStr ''abc''"]
  by (simp add: timed_payload_def hearted_state_def example_record_def library_parser_def
      strip_def isspace_def sublist_code)
















section \<open>The origin marks do not influence the crawl\<close>

text \<open>
  Two stacks with the same tokens, whatever their marks, behave alike: every function of
  the engine maps them to the same records, the same exceptions, the same world and to
  stacks with the same tokens again.  So the result of \<open>crawl\<close> is the one of the
  loop over a plain list of endpoints.
\<close>

definition same_tokens :: "continuation list \<Rightarrow> continuation list \<Rightarrow> bool" where
  "same_tokens st1 st2 = (map snd st1 = map snd st2)"

lemma push_items_same_tokens:
  "same_tokens st1 st2 \<Longrightarrow>
     rel_sum (=) same_tokens (push_items action items st1) (push_items action items st2)"
proof (induction items arbitrary: st1 st2)
  case Nil
  then show ?case by simp
next
  case (Cons item items)
  show ?case
  proof (cases "getitem action ''targetId''")
    case (Inl e)
    then show ?thesis by (simp add: bindE_def)
  next
    case (Inr target)
    define pushed where "pushed = (\<lambda>st :: continuation list.
       if target \<in> comment_targets
       then map (Pair MoreComments) (search_dict item ''continuationEndpoint'') @ st else st)"
    have unfold: "push_items action (item # items) st =
      bindE (startswith target ''comment-replies-item'') (\<lambda>replies.
      bindE (if replies then contains ''continuationItemRenderer'' item else Inr False) (\<lambda>more.
        if more then
          bindE (next_raise (search_dict item ''buttonRenderer'')) (\<lambda>button.
          bindE (getitem button ''command'') (\<lambda>command.
            push_items action items (pushed st @ [(MoreReplies, command)])))
        else push_items action items (pushed st)))" for st
      unfolding pushed_def using Inr by (simp add: bindE_def Let_def)
    have front: "same_tokens (pushed st1) (pushed st2)"
      using Cons.prems by (simp add: same_tokens_def pushed_def)
    have above: "same_tokens (pushed st1 @ [t]) (pushed st2 @ [t])" for t
      using Cons.prems by (simp add: same_tokens_def pushed_def)
    show ?thesis
    proof (cases "startswith target ''comment-replies-item''")
      case (Inl e)
      then show ?thesis unfolding unfold by (simp add: bindE_def)
    next
      case replies: (Inr replies)
      show ?thesis
      proof (cases "if replies then contains ''continuationItemRenderer'' item else Inr False")
        case (Inl e)
        with replies show ?thesis unfolding unfold by (simp add: bindE_def)
      next
        case more: (Inr more)
        show ?thesis
        proof (cases more)
          case False
          with replies more Cons.IH [OF front] show ?thesis
            unfolding unfold by (simp add: bindE_def)
        next
          case True
          show ?thesis
          proof (cases "next_raise (search_dict item ''buttonRenderer'')")
            case (Inl e)
            with replies more True show ?thesis unfolding unfold by (simp add: bindE_def)
          next
            case button: (Inr button)
            show ?thesis
            proof (cases "getitem button ''command''")
              case (Inl e)
              with replies more True button show ?thesis
                unfolding unfold by (simp add: bindE_def)
            next
              case (Inr command)
              with replies more True button Cons.IH [OF above [of "(MoreReplies, command)"]]
              show ?thesis
                unfolding unfold by (simp add: bindE_def)
            qed
          qed
        qed
      qed
    qed
  qed
qed

lemma push_continuations_same_tokens:
  "same_tokens st1 st2 \<Longrightarrow>
     rel_sum (=) same_tokens (push_continuations actions st1) (push_continuations actions st2)"
proof (induction actions arbitrary: st1 st2)
  case Nil
  then show ?case by simp
next
  case (Cons action actions)
  show ?case
  proof (cases "py_get action ''continuationItems'' (JList [])")
    case (Inl e)
    then show ?thesis by (simp add: bindE_def)
  next
    case its: (Inr its)
    show ?thesis
    proof (cases "py_iter its")
      case (Inl e)
      with its show ?thesis by (simp add: bindE_def)
    next
      case items: (Inr items)
      have rel: "rel_sum (=) same_tokens (push_items action items st1)
                   (push_items action items st2)"
        using Cons.prems by (rule push_items_same_tokens)
      show ?thesis
      proof (cases "push_items action items st1")
        case (Inl e)
        with rel its items show ?thesis
          by (cases "push_items action items st2") (simp_all add: bindE_def)
      next
        case s1: (Inr s1)
        with rel obtain s2 where s2: "push_items action items st2 = Inr s2"
          and "same_tokens s1 s2"
          by (cases "push_items action items st2") simp_all
        from Cons.IH [OF this(2)] its items s1 s2 show ?thesis
          by (simp add: bindE_def)
      qed
    qed
  qed
qed


lemma handle_response_same_tokens:
  assumes "same_tokens st1 st2"
  shows "fst (handle_response parse response st1) = fst (handle_response parse response st2)
     \<and> rel_sum (=) same_tokens (snd (handle_response parse response st1))
           (snd (handle_response parse response st2))"
proof (cases "truthy (next_or (search_dict response ''externalErrorMessage'') JNull)")
  case True
  then show ?thesis by (simp add: handle_response_def)
next
  case False
  let ?actions = "search_dict response ''reloadContinuationItemsCommand''
                    @ search_dict response ''appendContinuationItemsAction''"
  have rel: "rel_sum (=) same_tokens (push_continuations ?actions st1)
               (push_continuations ?actions st2)"
    using assms by (rule push_continuations_same_tokens)
  obtain results raised where batch: "emit_batch parse response = (results, raised)"
    by (cases "emit_batch parse response")
  show ?thesis
  proof (cases "push_continuations ?actions st1")
    case (Inl e)
    with rel False show ?thesis
      by (cases "push_continuations ?actions st2") (simp_all add: handle_response_def)
  next
    case s1: (Inr s1)
    with rel obtain s2 where "push_continuations ?actions st2 = Inr s2" and "same_tokens s1 s2"
      by (cases "push_continuations ?actions st2") simp_all
    with s1 False batch show ?thesis
      by (cases raised) (simp_all add: handle_response_def)
  qed
qed

fun same_step :: "step \<Rightarrow> step \<Rightarrow> bool" where
  "same_step (Stop a) (Stop b) = (a = b)"
| "same_step (Continue st1) (Continue st2) = same_tokens st1 st2"
| "same_step _ _ = False"

lemma crawl_step_same_tokens:
  assumes "same_tokens st1 st2"
  shows "fst (crawl_step parse ytcfg st1 w) = fst (crawl_step parse ytcfg st2 w)
     \<and> same_step (fst (snd (crawl_step parse ytcfg st1 w)))
           (fst (snd (crawl_step parse ytcfg st2 w)))
     \<and> snd (snd (crawl_step parse ytcfg st1 w)) = snd (snd (crawl_step parse ytcfg st2 w))"
proof (cases "st1 = []")
  case True
  with assms have "st2 = []" by (simp add: same_tokens_def)
  with True show ?thesis by (simp add: crawl_step_def)
next
  case False
  with assms have ne: "st2 \<noteq> []" by (auto simp: same_tokens_def)
  have "snd (last st1) = last (map snd st1)" and "snd (last st2) = last (map snd st2)"
    using False ne by (simp_all add: last_map)
  with assms have top: "snd (last st1) = snd (last st2)"
    unfolding same_tokens_def by simp
  have "map snd (butlast st1) = butlast (map snd st1)"
    and "map snd (butlast st2) = butlast (map snd st2)"
    by (simp_all add: map_butlast)
  with assms have rest: "same_tokens (butlast st1) (butlast st2)"
    unfolding same_tokens_def by simp
  obtain r w1 where req: "ajax_request (snd (last st2)) ytcfg 5 w = (r, w1)"
    by (cases "ajax_request (snd (last st2)) ytcfg 5 w")
  show ?thesis
  proof (cases r)
    case (Inl e)
    with False ne top req show ?thesis by (simp add: crawl_step_def)
  next
    case (Inr doc)
    show ?thesis
    proof (cases doc)
      case None
      with Inr False ne top req show ?thesis by (simp add: crawl_step_def)
    next
      case (Some response)
      obtain rs1 out1 where h1: "handle_response parse response (butlast st1) = (rs1, out1)"
        by (cases "handle_response parse response (butlast st1)")
      obtain rs2 out2 where h2: "handle_response parse response (butlast st2) = (rs2, out2)"
        by (cases "handle_response parse response (butlast st2)")
      from handle_response_same_tokens [OF rest, of parse response] h1 h2
      have "rs1 = rs2" and "rel_sum (=) same_tokens out1 out2"
        by simp_all
      with Inr Some False ne top req h1 h2 show ?thesis
        by (cases out1; cases out2) (simp_all add: crawl_step_def)
    qed
  qed
qed

lemma crawl_same_tokens:
  "same_tokens st1 st2 \<Longrightarrow> crawl parse ytcfg st1 w = crawl parse ytcfg st2 w"
proof (induction parse ytcfg st1 w arbitrary: st2 rule: crawl.induct)
  case (1 parse ytcfg st1 w)
  obtain rs1 step1 w1 where s1: "crawl_step parse ytcfg st1 w = (rs1, step1, w1)"
    by (cases "crawl_step parse ytcfg st1 w")
  obtain rs2 step2 w2 where s2: "crawl_step parse ytcfg st2 w = (rs2, step2, w2)"
    by (cases "crawl_step parse ytcfg st2 w")
  from crawl_step_same_tokens [OF "1.prems", of parse ytcfg w] s1 s2
  have eq: "rs1 = rs2" "w1 = w2" and step: "same_step step1 step2"
    by simp_all
  show ?case
  proof (cases step1)
    case (Stop raised)
    with step have "step2 = Stop raised" by (cases step2) simp_all
    with Stop s1 s2 eq show ?thesis
      by (simp add: crawl.simps [of parse ytcfg st1] crawl.simps [of parse ytcfg st2])
  next
    case (Continue st1')
    with step obtain st2' where c2: "step2 = Continue st2'" and same: "same_tokens st1' st2'"
      by (cases step2) simp_all
    have "crawl parse ytcfg st1' w1 = crawl parse ytcfg st2' w1"
      using s1 Continue same by (intro "1.IH") simp_all
    with Continue c2 s1 s2 eq show ?thesis
      by (simp add: crawl.simps [of parse ytcfg st1] crawl.simps [of parse ytcfg st2])
  qed
qed

lemma crawl_ignores_origin:
  "crawl parse ytcfg (map (\<lambda>t. (f t, snd t)) continuations) w = crawl parse ytcfg continuations w"
  by (rule crawl_same_tokens) (simp add: same_tokens_def comp_def)

section \<open>Order of the work stack\<close>

text \<open>
  The states of the loop: the stack and the world before each test of
  \<^verbatim>\<open>while continuations\<close>, for any transport, starting from the seed endpoint.
\<close>

inductive crawl_reaches ::
  "parser \<Rightarrow> json \<Rightarrow> json \<Rightarrow> continuation list \<Rightarrow> world \<Rightarrow> bool"
  for parse :: parser and ytcfg :: json and endpoint :: json where
    start: "crawl_reaches parse ytcfg endpoint [(Seed, endpoint)] w"
  | iterate:
      "crawl_reaches parse ytcfg endpoint continuations w \<Longrightarrow>
       crawl_step parse ytcfg continuations w = (results, Continue continuations', w') \<Longrightarrow>
       crawl_reaches parse ytcfg endpoint continuations' w'"

text \<open>
  From the first token that was appended at the back on, every token of the stack was
  appended at the back: the front-pushed tokens and the seed lie below all of them.
\<close>

definition replies_on_top :: "continuation list \<Rightarrow> bool" where
  "replies_on_top continuations =
     list_all (\<lambda>t. fst t = MoreReplies) (dropWhile (\<lambda>t. fst t \<noteq> MoreReplies) continuations)"

lemma replies_on_top_iff:
  "replies_on_top st \<longleftrightarrow>
     (\<exists>F B. st = F @ B \<and> (\<forall>t \<in> set F. fst t \<noteq> MoreReplies)
        \<and> (\<forall>t \<in> set B. fst t = MoreReplies))"
proof
  assume top: "replies_on_top st"
  let ?F = "takeWhile (\<lambda>t. fst t \<noteq> MoreReplies) st"
  let ?B = "dropWhile (\<lambda>t. fst t \<noteq> MoreReplies) st"
  have "st = ?F @ ?B"
    by simp
  moreover have "\<forall>t \<in> set ?F. fst t \<noteq> MoreReplies"
    by (auto dest: set_takeWhileD)
  moreover have "\<forall>t \<in> set ?B. fst t = MoreReplies"
    using top unfolding replies_on_top_def list_all_iff by assumption
  ultimately show "\<exists>F B. st = F @ B \<and> (\<forall>t \<in> set F. fst t \<noteq> MoreReplies)
        \<and> (\<forall>t \<in> set B. fst t = MoreReplies)"
    by blast
next
  assume "\<exists>F B. st = F @ B \<and> (\<forall>t \<in> set F. fst t \<noteq> MoreReplies)
        \<and> (\<forall>t \<in> set B. fst t = MoreReplies)"
  then obtain F B where st: "st = F @ B" and F: "\<forall>t \<in> set F. fst t \<noteq> MoreReplies"
    and B: "\<forall>t \<in> set B. fst t = MoreReplies"
    by blast
  have same: "dropWhile (\<lambda>t. fst t \<noteq> MoreReplies) st = dropWhile (\<lambda>t. fst t \<noteq> MoreReplies) B"
    using st F by (simp add: dropWhile_append2)
  have "fst t = MoreReplies" if "t \<in> set (dropWhile (\<lambda>t. fst t \<noteq> MoreReplies) B)" for t
  proof -
    from that have "t \<in> set B" by (rule set_dropWhileD)
    with B show ?thesis by blast
  qed
  then show "replies_on_top st"
    unfolding replies_on_top_def list_all_iff same by blast
qed

lemma push_items_shape:
  "push_items action items st = Inr st' \<Longrightarrow>
     \<exists>F B. st' = F @ st @ B \<and> (\<forall>t \<in> set F. fst t = MoreComments)
       \<and> (\<forall>t \<in> set B. fst t = MoreReplies)"
proof (induction items arbitrary: st)
  case Nil
  then have "st' = [] @ st @ []" by simp
  then show ?case by fastforce
next
  case (Cons item items)
  from Cons.prems obtain target where target: "getitem action ''targetId'' = Inr target"
    by (auto simp: bindE_def split: sum.splits)
  define st1 where "st1 =
    (if target \<in> comment_targets
     then map (Pair MoreComments) (search_dict item ''continuationEndpoint'') @ st else st)"
  obtain F1 where st1: "st1 = F1 @ st" and F1: "\<forall>t \<in> set F1. fst t = MoreComments"
    by (cases "target \<in> comment_targets") (auto simp: st1_def)
  have unfold: "push_items action (item # items) st =
      bindE (startswith target ''comment-replies-item'') (\<lambda>replies.
      bindE (if replies then contains ''continuationItemRenderer'' item else Inr False) (\<lambda>more.
        if more then
          bindE (next_raise (search_dict item ''buttonRenderer'')) (\<lambda>button.
          bindE (getitem button ''command'') (\<lambda>command.
            push_items action items (st1 @ [(MoreReplies, command)])))
        else push_items action items st1))"
    unfolding st1_def using target by (simp add: bindE_def Let_def)
  obtain replies where replies: "startswith target ''comment-replies-item'' = Inr replies"
    using Cons.prems unfolding unfold
    by (cases "startswith target ''comment-replies-item''") (simp_all add: bindE_def)
  obtain more where more:
    "(if replies then contains ''continuationItemRenderer'' item else Inr False) = Inr more"
    using Cons.prems unfolding unfold
    by (cases "if replies then contains ''continuationItemRenderer'' item else Inr False")
      (simp_all add: bindE_def replies)
  have "(\<exists>command. push_items action items (st1 @ [(MoreReplies, command)]) = Inr st')
      \<or> push_items action items st1 = Inr st'"
  proof (cases more)
    case False
    with Cons.prems replies more show ?thesis
      unfolding unfold by (simp add: bindE_def)
  next
    case True
    obtain button where button: "next_raise (search_dict item ''buttonRenderer'') = Inr button"
      using Cons.prems replies more True unfolding unfold
      by (cases "next_raise (search_dict item ''buttonRenderer'')") (simp_all add: bindE_def)
    obtain command where command: "getitem button ''command'' = Inr command"
      using Cons.prems replies more True button unfolding unfold
      by (cases "getitem button ''command''") (simp_all add: bindE_def)
    have "push_items action items (st1 @ [(MoreReplies, command)]) = Inr st'"
      using Cons.prems replies more True button command unfolding unfold
      by (simp add: bindE_def)
    then show ?thesis by blast
  qed
  then show ?case
  proof
    assume "\<exists>command. push_items action items (st1 @ [(MoreReplies, command)]) = Inr st'"
    then obtain command where "push_items action items (st1 @ [(MoreReplies, command)]) = Inr st'"
      by blast
    from Cons.IH [OF this] obtain F B where "st' = F @ (st1 @ [(MoreReplies, command)]) @ B"
      and "\<forall>t \<in> set F. fst t = MoreComments" and "\<forall>t \<in> set B. fst t = MoreReplies"
      by blast
    with st1 F1 have "st' = (F @ F1) @ st @ ((MoreReplies, command) # B)
        \<and> (\<forall>t \<in> set (F @ F1). fst t = MoreComments)
        \<and> (\<forall>t \<in> set ((MoreReplies, command) # B). fst t = MoreReplies)"
      by auto
    then show ?thesis by blast
  next
    assume "push_items action items st1 = Inr st'"
    from Cons.IH [OF this] obtain F B where "st' = F @ st1 @ B"
      and "\<forall>t \<in> set F. fst t = MoreComments" and "\<forall>t \<in> set B. fst t = MoreReplies"
      by blast
    with st1 F1 have "st' = (F @ F1) @ st @ B
        \<and> (\<forall>t \<in> set (F @ F1). fst t = MoreComments)
        \<and> (\<forall>t \<in> set B. fst t = MoreReplies)"
      by auto
    then show ?thesis by blast
  qed
qed

lemma push_continuations_shape:
  "push_continuations actions st = Inr st' \<Longrightarrow>
     \<exists>F B. st' = F @ st @ B \<and> (\<forall>t \<in> set F. fst t = MoreComments)
       \<and> (\<forall>t \<in> set B. fst t = MoreReplies)"
proof (induction actions arbitrary: st)
  case Nil
  then have "st' = [] @ st @ []" by simp
  then show ?case by fastforce
next
  case (Cons action actions)
  obtain its where its: "py_get action ''continuationItems'' (JList []) = Inr its"
    using Cons.prems
    by (cases "py_get action ''continuationItems'' (JList [])") (simp_all add: bindE_def)
  obtain items where items: "py_iter its = Inr items"
    using Cons.prems its by (cases "py_iter its") (simp_all add: bindE_def)
  obtain st1 where pushed: "push_items action items st = Inr st1"
    using Cons.prems its items by (cases "push_items action items st") (simp_all add: bindE_def)
  have rest: "push_continuations actions st1 = Inr st'"
    using Cons.prems its items pushed by (simp add: bindE_def)
  note pushed
  from push_items_shape [OF this] obtain F1 B1 where "st1 = F1 @ st @ B1"
    and "\<forall>t \<in> set F1. fst t = MoreComments" and "\<forall>t \<in> set B1. fst t = MoreReplies"
    by blast
  moreover from Cons.IH [OF rest] obtain F B where "st' = F @ st1 @ B"
    and "\<forall>t \<in> set F. fst t = MoreComments" and "\<forall>t \<in> set B. fst t = MoreReplies"
    by blast
  ultimately have "st' = (F @ F1) @ st @ (B1 @ B)
      \<and> (\<forall>t \<in> set (F @ F1). fst t = MoreComments)
      \<and> (\<forall>t \<in> set (B1 @ B). fst t = MoreReplies)"
    by auto
  then show ?case by blast
qed

lemma handle_response_shape:
  assumes "handle_response parse response st = (results, Inr st')"
  shows "\<exists>actions. push_continuations actions st = Inr st'"
proof -
  let ?actions = "search_dict response ''reloadContinuationItemsCommand''
                    @ search_dict response ''appendContinuationItemsAction''"
  have quiet: "\<not> truthy (next_or (search_dict response ''externalErrorMessage'') JNull)"
    using assms by (auto simp: handle_response_def)
  obtain st1 where st1: "push_continuations ?actions st = Inr st1"
    using assms quiet
    by (cases "push_continuations ?actions st") (simp_all add: handle_response_def)
  obtain rs raised where batch: "emit_batch parse response = (rs, raised)"
    by (cases "emit_batch parse response")
  have "st1 = st'"
    using assms quiet st1 batch by (cases raised) (simp_all add: handle_response_def)
  with st1 show ?thesis by blast
qed

lemma crawl_step_shape:
  assumes "crawl_step parse ytcfg st w = (results, Continue st', w')"
  shows "\<exists>F B. st' = F @ butlast st @ B \<and> (\<forall>t \<in> set F. fst t = MoreComments)
       \<and> (\<forall>t \<in> set B. fst t = MoreReplies)"
proof -
  have ne: "st \<noteq> []"
    using assms by (auto simp: crawl_step_def)
  obtain r w1 where req: "ajax_request (snd (last st)) ytcfg 5 w = (r, w1)"
    by (cases "ajax_request (snd (last st)) ytcfg 5 w")
  obtain response where r: "r = Inr (Some response)" and live: "truthy response"
    using assms ne req
    by (cases r; cases "projr r") (auto simp: crawl_step_def split: if_splits)
  obtain rs out where h: "handle_response parse response (butlast st) = (rs, out)"
    by (cases "handle_response parse response (butlast st)")
  have "out = Inr st'"
    using assms ne req r live h by (cases out) (simp_all add: crawl_step_def)
  with h obtain actions where "push_continuations actions (butlast st) = Inr st'"
    using handle_response_shape by blast
  then show ?thesis
    by (rule push_continuations_shape)
qed

lemma replies_on_top_butlast: "replies_on_top st \<Longrightarrow> replies_on_top (butlast st)"
proof -
  assume "replies_on_top st"
  then obtain F B where st: "st = F @ B" and F: "\<forall>t \<in> set F. fst t \<noteq> MoreReplies"
    and B: "\<forall>t \<in> set B. fst t = MoreReplies"
    unfolding replies_on_top_iff by blast
  have "butlast st = (if B = [] then butlast F else F) @ (if B = [] then [] else butlast B)"
    using st by (simp add: butlast_append)
  moreover have "\<forall>t \<in> set (if B = [] then butlast F else F). fst t \<noteq> MoreReplies"
    using F by (auto dest: in_set_butlastD)
  moreover have "\<forall>t \<in> set (if B = [] then [] else butlast B). fst t = MoreReplies"
    using B by (auto dest: in_set_butlastD)
  ultimately show ?thesis
    unfolding replies_on_top_iff by blast
qed

lemma replies_on_top_pushed:
  assumes "replies_on_top st" and "\<forall>t \<in> set F. fst t = MoreComments"
    and "\<forall>t \<in> set B. fst t = MoreReplies"
  shows "replies_on_top (F @ st @ B)"
proof -
  from assms(1) obtain F0 B0 where st: "st = F0 @ B0"
    and F0: "\<forall>t \<in> set F0. fst t \<noteq> MoreReplies" and B0: "\<forall>t \<in> set B0. fst t = MoreReplies"
    unfolding replies_on_top_iff by blast
  have "F @ st @ B = (F @ F0) @ (B0 @ B)"
    using st by simp
  moreover have "\<forall>t \<in> set (F @ F0). fst t \<noteq> MoreReplies"
    using assms(2) F0 by auto
  moreover have "\<forall>t \<in> set (B0 @ B). fst t = MoreReplies"
    using assms(3) B0 by auto
  ultimately show ?thesis
    unfolding replies_on_top_iff by blast
qed

lemma crawl_reaches_replies_on_top:
  "crawl_reaches parse ytcfg endpoint st w \<Longrightarrow> replies_on_top st"
proof (induction rule: crawl_reaches.induct)
  case (start w)
  show ?case by (simp add: replies_on_top_def)
next
  case (iterate st w results st' w')
  from crawl_step_shape [OF iterate.hyps(2)] obtain F B where "st' = F @ butlast st @ B"
    and "\<forall>t \<in> set F. fst t = MoreComments" and "\<forall>t \<in> set B. fst t = MoreReplies"
    by blast
  with replies_on_top_butlast [OF iterate.IH] show ?case
    by (simp add: replies_on_top_pushed)
qed

text \<open>The request that \<open>ajax_request\<close> posts for an endpoint, on every attempt.\<close>

definition request_of :: "json \<Rightarrow> json \<Rightarrow> error + request" where
  "request_of endpoint ytcfg =
     bindE (request_url endpoint) (\<lambda>url.
     bindE (request_data endpoint ytcfg) (\<lambda>data.
     bindE (getitem ytcfg ''INNERTUBE_API_KEY'') (\<lambda>key.
       Inr (url, key, data))))"

lemma retry_loop_posts:
  assumes "retry_loop n url ytcfg data w = (result, w')"
  shows "case getitem ytcfg ''INNERTUBE_API_KEY'' of
           Inl e \<Rightarrow> posts w' = posts w
         | Inr key \<Rightarrow>
             \<exists>m \<le> n. posts w' = posts w @ replicate m (url, key, data)
               \<and> ((\<exists>doc. result = Inr (Some doc)) \<longrightarrow> 1 \<le> m)"
proof (cases "getitem ytcfg ''INNERTUBE_API_KEY''")
  case (Inl e)
  with assms show ?thesis by (cases n) auto
next
  case (Inr key)
  have "\<exists>m \<le> n. posts w' = posts w @ replicate m (url, key, data)
               \<and> ((\<exists>doc. result = Inr (Some doc)) \<longrightarrow> 1 \<le> m)"
    using assms
  proof (induction n arbitrary: w)
    case 0
    then show ?case by auto
  next
    case (Suc n)
    obtain a w1 where post: "session_post (url, key, data) w = (a, w1)"
      by (cases "session_post (url, key, data) w")
    then have posted: "posts w1 = posts w @ [(url, key, data)]"
      by (auto simp: session_post_def split: list.splits)
    have one: "\<exists>m \<le> Suc n. posts w' = posts w @ replicate m (url, key, data)
               \<and> ((\<exists>doc. result = Inr (Some doc)) \<longrightarrow> 1 \<le> m)" if "w' = w1"
      using that posted by (intro exI [of _ 1]) simp
    have more: "\<exists>m \<le> Suc n. posts w' = posts w @ replicate m (url, key, data)
               \<and> ((\<exists>doc. result = Inr (Some doc)) \<longrightarrow> 1 \<le> m)"
      if "retry_loop n url ytcfg data (sleep RetrySleep w1) = (result, w')"
    proof -
      from Suc.IH [OF that] obtain m where "m \<le> n"
        and "posts w' = posts (sleep RetrySleep w1) @ replicate m (url, key, data)"
        by blast
      with posted have "Suc m \<le> Suc n"
        and "posts w' = posts w @ replicate (Suc m) (url, key, data)"
        by (simp_all add: sleep_def)
      then show ?thesis
        by (intro exI [of _ "Suc m"]) simp
    qed
    show ?case
    proof (cases a)
      case (Response status_code body)
      show ?thesis
      proof (cases "status_code = 200 \<or> status_code = 403 \<or> status_code = 413")
        case True
        with Suc.prems Inr post Response have "w' = w1"
          by (auto split: option.splits if_splits)
        then show ?thesis by (rule one)
      next
        case False
        with Suc.prems Inr post Response
        have "retry_loop n url ytcfg data (sleep RetrySleep w1) = (result, w')"
          by simp
        then show ?thesis by (rule more)
      qed
    next
      case Timeout
      with Suc.prems Inr post
      have "retry_loop n url ytcfg data (sleep RetrySleep w1) = (result, w')"
        by simp
      then show ?thesis by (rule more)
    next
      case Failure
      with Suc.prems Inr post have "w' = w1" by simp
      then show ?thesis by (rule one)
    qed
  qed
  with Inr show ?thesis by simp
qed

lemma ajax_request_posts:
  assumes "ajax_request endpoint ytcfg retries w = (result, w')"
  shows "case request_of endpoint ytcfg of
           Inl e \<Rightarrow> posts w' = posts w
         | Inr req \<Rightarrow>
             \<exists>m \<le> nat retries. posts w' = posts w @ replicate m req
               \<and> ((\<exists>doc. result = Inr (Some doc)) \<longrightarrow> 1 \<le> m)"
proof (cases "request_url endpoint")
  case (Inl e)
  with assms show ?thesis
    by (simp add: ajax_request_def request_of_def bindE_def)
next
  case url: (Inr url)
  show ?thesis
  proof (cases "request_data endpoint ytcfg")
    case (Inl e)
    with assms url show ?thesis
      by (simp add: ajax_request_def request_of_def bindE_def)
  next
    case data: (Inr data)
    with assms url have "retry_loop (nat retries) url ytcfg data w = (result, w')"
      by (simp add: ajax_request_def)
    from retry_loop_posts [OF this] url data show ?thesis
      by (cases "getitem ytcfg ''INNERTUBE_API_KEY''") (simp_all add: request_of_def bindE_def)
  qed
qed

lemma crawl_step_posts:
  assumes "crawl_step parse ytcfg st w = (results, outcome, w')" and "st \<noteq> []"
  shows "case request_of (snd (last st)) ytcfg of
           Inl e \<Rightarrow> posts w' = posts w
         | Inr req \<Rightarrow>
             \<exists>m \<le> 5. posts w' = posts w @ replicate m req
               \<and> ((\<exists>st'. outcome = Continue st') \<longrightarrow> 1 \<le> m)"
proof -
  obtain r w1 where req: "ajax_request (snd (last st)) ytcfg 5 w = (r, w1)"
    by (cases "ajax_request (snd (last st)) ytcfg 5 w")
  have same: "posts w' = posts w1"
    using assms req
    by (auto simp: crawl_step_def sleep_def
        split: sum.splits option.splits if_splits prod.splits)
  have got: "\<exists>doc. r = Inr (Some doc)" if "\<exists>st'. outcome = Continue st'"
    using assms req that
    by (auto simp: crawl_step_def split: sum.splits option.splits if_splits prod.splits)
  from ajax_request_posts [OF req] same got show ?thesis
    by (cases "request_of (snd (last st)) ytcfg") auto
qed

text \<open>
  C1, amended: in every state of the loop that holds a back-pushed "more replies" token,
  the iteration pops the top of the stack, which is a "more replies" token; every request
  it sends is the request of that token (at least one when the loop goes on); the other
  tokens stay on the stack in their order, among them every front-pushed "more comments"
  token.  In the stack the "more comments" tokens lie below all "more replies" tokens, so
  a "more comments" token is popped and issued only when no "more replies" token is left.
\<close>

theorem replies_popped_before_comments:
  assumes "crawl_reaches parse ytcfg endpoint continuations w"
    and "\<exists>t \<in> set continuations. fst t = MoreReplies"
    and "crawl_step parse ytcfg continuations w = (results, outcome, w')"
  shows "fst (last continuations) = MoreReplies
     \<and> (case request_of (snd (last continuations)) ytcfg of
           Inl e \<Rightarrow> posts w' = posts w
         | Inr req \<Rightarrow>
             \<exists>m \<le> 5. posts w' = posts w @ replicate m req
               \<and> ((\<exists>st'. outcome = Continue st') \<longrightarrow> 1 \<le> m))
     \<and> (\<forall>st'. outcome = Continue st' \<longrightarrow>
          (\<exists>F B. st' = F @ butlast continuations @ B
             \<and> (\<forall>t \<in> set F. fst t = MoreComments) \<and> (\<forall>t \<in> set B. fst t = MoreReplies))
          \<and> (\<forall>t \<in> set continuations. fst t = MoreComments \<longrightarrow> t \<in> set st'))
     \<and> (\<forall>i j. i < length continuations \<and> j < length continuations
            \<and> fst (continuations ! i) = MoreComments \<and> fst (continuations ! j) = MoreReplies
          \<longrightarrow> i < j)"
proof -
  from crawl_reaches_replies_on_top [OF assms(1)] obtain F B where st: "continuations = F @ B"
    and F: "\<forall>t \<in> set F. fst t \<noteq> MoreReplies" and B: "\<forall>t \<in> set B. fst t = MoreReplies"
    unfolding replies_on_top_iff by blast
  from assms(2) st F have "B \<noteq> []" by auto
  then have ne: "continuations \<noteq> []" and "last continuations = last B" and "last B \<in> set B"
    using st by simp_all
  with B have top: "fst (last continuations) = MoreReplies" by simp
  note issued = crawl_step_posts [OF assms(3) ne]
  have kept: "(\<exists>F B. st' = F @ butlast continuations @ B
             \<and> (\<forall>t \<in> set F. fst t = MoreComments) \<and> (\<forall>t \<in> set B. fst t = MoreReplies))
          \<and> (\<forall>t \<in> set continuations. fst t = MoreComments \<longrightarrow> t \<in> set st')"
    if "outcome = Continue st'" for st'
  proof -
    from assms(3) that
    have shape: "\<exists>F B. st' = F @ butlast continuations @ B
        \<and> (\<forall>t \<in> set F. fst t = MoreComments) \<and> (\<forall>t \<in> set B. fst t = MoreReplies)"
      by (intro crawl_step_shape) simp
    have "t \<in> set st'" if "t \<in> set continuations" "fst t = MoreComments" for t
    proof -
      have "continuations = butlast continuations @ [last continuations]"
        using ne by simp
      with that(1) have "t \<in> set (butlast continuations) \<or> t = last continuations"
        by (metis Un_iff empty_iff empty_set insert_iff list.simps(15) set_append)
      with that(2) top have "t \<in> set (butlast continuations)"
        by auto
      with shape show ?thesis by auto
    qed
    with shape show ?thesis by blast
  qed
  have order: "i < j" if "i < length continuations" "j < length continuations"
    "fst (continuations ! i) = MoreComments" "fst (continuations ! j) = MoreReplies" for i j
  proof -
    have "i < length F"
    proof (rule ccontr)
      assume "\<not> i < length F"
      then have "continuations ! i \<in> set B"
        using that(1) st by (simp add: nth_append)
      with B that(3) show False by auto
    qed
    moreover have "\<not> j < length F"
    proof
      assume "j < length F"
      then have "continuations ! j \<in> set F"
        using st by (simp add: nth_append)
      with F that(4) show False by auto
    qed
    ultimately show ?thesis by simp
  qed
  from top issued kept order show ?thesis by blast
qed


text \<open>
  A response with both kinds of action: a page of the comment section that ends in a
  continuation for the next page, and a replies panel with a "show more replies" button.
\<close>

definition thread_batch :: json where
  "thread_batch =
     JDict [(''onResponseReceivedEndpoints'',
       JList [JDict [(''reloadContinuationItemsCommand'',
                JDict [(''targetId'', JStr ''comments-section''),
                       (''continuationItems'',
                         JList [JDict [(''continuationItemRenderer'',
                           JDict [(''continuationEndpoint'', token_endpoint ''next page'')])]])])],
              JDict [(''appendContinuationItemsAction'',
                JDict [(''targetId'', JStr ''comment-replies-item-abc''),
                       (''continuationItems'',
                         JList [JDict [(''continuationItemRenderer'',
                           JDict [(''button'',
                             JDict [(''buttonRenderer'',
                               JDict [(''command'', token_endpoint ''more replies'')])])])]])])]])]"

definition quiet_batch :: json where
  "quiet_batch = JDict [(''responseContext'', JDict [])]"

text \<open>The continuation tokens of the requests sent so far, in the order of sending.\<close>

definition issued :: "world \<Rightarrow> (error + json) list" where
  "issued w = map (\<lambda>req. getitem (snd (snd req)) ''continuation'') (posts w)"

definition thread_world :: world where
  "thread_world =
     \<lparr>pending = [Response 200 (Some thread_batch), Response 200 (Some quiet_batch),
                 Response 200 (Some quiet_batch)],
      posts = [], naps = []\<rparr>"


lemma first_batch:
  "crawl_step no_date example_ytcfg [(Seed, token_endpoint ''seed'')] thread_world
     = ([], Continue [(MoreComments, token_endpoint ''next page''),
                      (MoreReplies, token_endpoint ''more replies'')],
        sleep BatchSleep
          (snd (ajax_request (token_endpoint ''seed'') example_ytcfg 5 thread_world)))"
  by code_simp

text \<open>
  C1, as stated, fails: after the batch above the stack holds the "more comments" token
  of the next page and the "more replies" token of the button, and the token requested
  next is the "more replies" one; the next page is requested last.
\<close>

theorem more_replies_issued_first:
  "fst (snd (crawl_step no_date example_ytcfg [(Seed, token_endpoint ''seed'')]
       thread_world))
     = Continue [(MoreComments, token_endpoint ''next page''),
                 (MoreReplies, token_endpoint ''more replies'')]
   \<and> issued (snd (snd (crawl no_date example_ytcfg [(Seed, token_endpoint ''seed'')]
       thread_world)))
     = [Inr (JStr ''seed''), Inr (JStr ''more replies''), Inr (JStr ''next page'')]"
  by code_simp

text \<open>The worlds after the first and the second batch of the run above.\<close>

definition first_world :: world where
  "first_world =
     sleep BatchSleep (snd (ajax_request (token_endpoint ''seed'') example_ytcfg 5 thread_world))"

definition second_world :: world where
  "second_world =
     sleep BatchSleep
       (snd (ajax_request (token_endpoint ''more replies'') example_ytcfg 5 first_world))"

lemma second_batch:
  "crawl_step no_date example_ytcfg
     [(MoreComments, token_endpoint ''next page''),
      (MoreReplies, token_endpoint ''more replies'')] first_world
   = ([], Continue [(MoreComments, token_endpoint ''next page'')], second_world)"
  by code_simp

theorem replies_popped_before_comments_witness:
  "fst (last [(MoreComments, token_endpoint ''next page''),
              (MoreReplies, token_endpoint ''more replies'')]) = MoreReplies
   \<and> (\<exists>m \<le> 5. posts second_world
         = posts first_world
             @ replicate m (''https://www.youtube.com/youtubei/v1/next'', JStr ''k'',
                 JDict [(''context'', JDict [(''client'', JDict [(''hl'', JStr ''en'')])]),
                        (''continuation'', JStr ''more replies'')])
         \<and> 1 \<le> m)"
proof -
  let ?st = "[(MoreComments, token_endpoint ''next page''),
              (MoreReplies, token_endpoint ''more replies'')]"
  have reach: "crawl_reaches no_date example_ytcfg (token_endpoint ''seed'') ?st first_world"
    unfolding first_world_def
    by (rule crawl_reaches.iterate [OF crawl_reaches.start first_batch])
  have held: "\<exists>t \<in> set ?st. fst t = MoreReplies"
    by simp
  from replies_popped_before_comments [OF reach held second_batch]
  show ?thesis
    by (simp add: request_of_def request_url_def request_data_def token_endpoint_def
        example_ytcfg_def bindE_def)
qed

end
